theory Spec2Isabelle
  imports Main "HOL-Library.AList"
begin

section \<open>Exceptions\<close>

text \<open>
  The exceptions the program can meet, as values. The string is the exception's message
  (\<open>str(e)\<close>); for \<open>KeyError\<close> it is the key the error was raised with.
\<close>

datatype exn =
    ValueError string
  | KeyError string
  | IndexError string
  | OverflowError string
  | FileNotFoundError
  | PermissionError
  | UnpicklingError
  | EOFError

section \<open>Strings\<close>

text \<open>
  A Python \<open>str\<close> is a sequence of code points. The model keeps the code points
  0 to 255 (Latin-1), one \<open>char\<close> each, and classifies them as the Unicode database
  does: \<open>isalpha\<close> holds of the letters (general category L), \<open>isdigit\<close> of the
  decimal digits and of the superscript digits (numeric type Digit), and \<open>split()\<close>
  separates at the characters \<open>isspace\<close> holds of.
\<close>

definition char_isalpha :: "char \<Rightarrow> bool" where
  "char_isalpha ch =
     (let k = (of_char ch :: nat)
      in (65 \<le> k \<and> k \<le> 90) \<or> (97 \<le> k \<and> k \<le> 122) \<or> k = 170 \<or> k = 181 \<or> k = 186 \<or>
         (192 \<le> k \<and> k \<le> 214) \<or> (216 \<le> k \<and> k \<le> 246) \<or> (248 \<le> k \<and> k \<le> 255))"

definition char_isdecimal :: "char \<Rightarrow> bool" where
  "char_isdecimal ch = (let k = (of_char ch :: nat) in 48 \<le> k \<and> k \<le> 57)"

definition char_isdigit :: "char \<Rightarrow> bool" where
  "char_isdigit ch =
     (let k = (of_char ch :: nat)
      in (48 \<le> k \<and> k \<le> 57) \<or> k = 178 \<or> k = 179 \<or> k = 185)"

definition char_isspace :: "char \<Rightarrow> bool" where
  "char_isspace ch =
     (let k = (of_char ch :: nat)
      in (9 \<le> k \<and> k \<le> 13) \<or> (28 \<le> k \<and> k \<le> 32) \<or> k = 133 \<or> k = 160)"

definition char_lower :: "char \<Rightarrow> char" where
  "char_lower ch =
     (let k = (of_char ch :: nat)
      in if (65 \<le> k \<and> k \<le> 90) \<or> (192 \<le> k \<and> k \<le> 214) \<or> (216 \<le> k \<and> k \<le> 222)
         then char_of (k + 32) else ch)"

text \<open>\<open>s.isalpha()\<close> and \<open>s.isdigit()\<close>: false of the empty string.\<close>

definition str_isalpha :: "string \<Rightarrow> bool" where
  "str_isalpha s \<longleftrightarrow> s \<noteq> [] \<and> list_all char_isalpha s"

definition str_isdigit :: "string \<Rightarrow> bool" where
  "str_isdigit s \<longleftrightarrow> s \<noteq> [] \<and> list_all char_isdigit s"

definition str_lower :: "string \<Rightarrow> string" where
  "str_lower s = map char_lower s"

definition str_strip :: "string \<Rightarrow> string" where
  "str_strip s = rev (dropWhile char_isspace (rev (dropWhile char_isspace s)))"

text \<open>
  \<open>s.split()\<close>: the maximal runs of characters that are not whitespace. The first
  argument is the run being read.
\<close>

fun split_from :: "string \<Rightarrow> string \<Rightarrow> string list" where
  "split_from cur [] = (if cur = [] then [] else [cur])"
| "split_from cur (ch # cs) =
     (if char_isspace ch
      then (if cur = [] then split_from [] cs else cur # split_from [] cs)
      else split_from (cur @ [ch]) cs)"

definition str_split :: "string \<Rightarrow> string list" where
  "str_split s = split_from [] s"

text \<open>\<open>sep.join(xs)\<close>.\<close>

fun str_join :: "string \<Rightarrow> string list \<Rightarrow> string" where
  "str_join sep [] = []"
| "str_join sep [x] = x"
| "str_join sep (x # y # ys) = x @ sep @ str_join sep (y # ys)"

section \<open>Calendar dates\<close>

text \<open>
  \<open>datetime.date\<close>: a year, a month and a day of the proleptic Gregorian calendar.
  The functions below follow the arithmetic of the standard library's date type
  (\<open>_is_leap\<close>, \<open>_days_before_year\<close>, \<open>_days_in_month\<close>, \<open>_days_before_month\<close>,
  \<open>_ymd2ord\<close>, \<open>_ord2ymd\<close>), which the address book calls through \<open>replace\<close>,
  date subtraction, \<open>weekday\<close>, \<open>+ timedelta\<close> and \<open>strftime\<close>.
\<close>

record date =
  year :: int
  month :: int
  day :: int

definition MINYEAR :: int where "MINYEAR = 1"
definition MAXYEAR :: int where "MAXYEAR = 9999"
definition MAXORDINAL :: int where "MAXORDINAL = 3652059"

definition is_leap :: "int \<Rightarrow> bool" where
  "is_leap y \<longleftrightarrow> y mod 4 = 0 \<and> (y mod 100 \<noteq> 0 \<or> y mod 400 = 0)"

definition days_before_year :: "int \<Rightarrow> int" where
  "days_before_year y = (y - 1) * 365 + (y - 1) div 4 - (y - 1) div 100 + (y - 1) div 400"

definition DAYS_IN_MONTH :: "int list" where
  "DAYS_IN_MONTH = [-1, 31, 28, 31, 30, 31, 30, 31, 31, 30, 31, 30, 31]"

definition DAYS_BEFORE_MONTH :: "int list" where
  "DAYS_BEFORE_MONTH = [-1, 0, 31, 59, 90, 120, 151, 181, 212, 243, 273, 304, 334]"

definition days_in_month :: "int \<Rightarrow> int \<Rightarrow> int" where
  "days_in_month y m = (if m = 2 \<and> is_leap y then 29 else DAYS_IN_MONTH ! nat m)"

definition days_before_month :: "int \<Rightarrow> int \<Rightarrow> int" where
  "days_before_month y m = DAYS_BEFORE_MONTH ! nat m + (if m > 2 \<and> is_leap y then 1 else 0)"

definition ymd2ord :: "int \<Rightarrow> int \<Rightarrow> int \<Rightarrow> int" where
  "ymd2ord y m d = days_before_year y + days_before_month y m + d"

definition toordinal :: "date \<Rightarrow> int" where
  "toordinal dt = ymd2ord (year dt) (month dt) (day dt)"

text \<open>The dates the constructor accepts (\<open>_check_date_fields\<close>).\<close>

definition valid_date :: "date \<Rightarrow> bool" where
  "valid_date dt \<longleftrightarrow>
     MINYEAR \<le> year dt \<and> year dt \<le> MAXYEAR \<and> 1 \<le> month dt \<and> month dt \<le> 12 \<and>
     1 \<le> day dt \<and> day dt \<le> days_in_month (year dt) (month dt)"

text \<open>
  \<open>date(year, month, day)\<close>: the checked constructor. It raises \<open>ValueError\<close> when a
  field is out of range; the messages are those of the C implementation.
\<close>

definition mk_date :: "int \<Rightarrow> int \<Rightarrow> int \<Rightarrow> exn + date" where
  "mk_date y m d =
     (if y < MINYEAR \<or> MAXYEAR < y then Inl (ValueError ''year is out of range'')
      else if m < 1 \<or> 12 < m then Inl (ValueError ''month must be in 1..12'')
      else if d < 1 \<or> days_in_month y m < d then Inl (ValueError ''day is out of range for month'')
      else Inr \<lparr>year = y, month = m, day = d\<rparr>)"

text \<open>\<open>d.replace(year=y)\<close> builds a new date from the new year and the old month and day.\<close>

definition replace_year :: "date \<Rightarrow> int \<Rightarrow> exn + date" where
  "replace_year dt y = mk_date y (month dt) (day dt)"

text \<open>
  \<open>_ord2ymd\<close>: the date of an ordinal, by 400-year, 100-year, 4-year and 1-year cycles
  and an estimate of the month that is corrected when it is one too large.
\<close>

definition ord2ymd :: "int \<Rightarrow> date" where
  "ord2ymd n0 =
     (let n = n0 - 1;
          n400 = n div 146097; n = n mod 146097;
          n100 = n div 36524; n = n mod 36524;
          n4 = n div 1461; n = n mod 1461;
          n1 = n div 365; n = n mod 365;
          y = n400 * 400 + 1 + n100 * 100 + n4 * 4 + n1
      in if n1 = 4 \<or> n100 = 4 then \<lparr>year = y - 1, month = 12, day = 31\<rparr>
         else
           let leapyear = (n1 = 3 \<and> (n4 \<noteq> 24 \<or> n100 = 3));
               m = (n + 50) div 32;
               preceding = DAYS_BEFORE_MONTH ! nat m + (if m > 2 \<and> leapyear then 1 else 0)
           in if preceding > n
              then let m' = m - 1;
                       preceding' = preceding -
                         (DAYS_IN_MONTH ! nat m' + (if m' = 2 \<and> leapyear then 1 else 0))
                   in \<lparr>year = y, month = m', day = n - preceding' + 1\<rparr>
              else \<lparr>year = y, month = m, day = n - preceding + 1\<rparr>)"

text \<open>\<open>d + timedelta(days=k)\<close>: \<open>OverflowError\<close> when the result leaves the calendar.\<close>

definition date_add_days :: "date \<Rightarrow> int \<Rightarrow> exn + date" where
  "date_add_days dt k =
     (let o' = toordinal dt + k
      in if 0 < o' \<and> o' \<le> MAXORDINAL then Inr (ord2ymd o')
         else Inl (OverflowError ''date value out of range''))"

text \<open>\<open>d.weekday()\<close>: Monday is 0, Saturday 5, Sunday 6.\<close>

definition weekday :: "date \<Rightarrow> int" where
  "weekday dt = (toordinal dt + 6) mod 7"

subsection \<open>Formatting and parsing dates\<close>

definition digit_char :: "int \<Rightarrow> char" where
  "digit_char k = char_of (48 + nat k)"

definition digit_val :: "char \<Rightarrow> int" where
  "digit_val ch = int (of_char ch) - 48"

text \<open>
  \<open>d.strftime("%d.%m.%Y")\<close>: day and month with two digits, the year with four (for a
  year below 1000 the platform's C library decides whether \<open>%Y\<close> pads; the model pads).
\<close>

definition strftime_dmy :: "date \<Rightarrow> string" where
  "strftime_dmy dt =
     [digit_char (day dt div 10), digit_char (day dt mod 10), CHR ''.'',
      digit_char (month dt div 10), digit_char (month dt mod 10), CHR ''.'',
      digit_char (year dt div 1000), digit_char (year dt div 100 mod 10),
      digit_char (year dt div 10 mod 10), digit_char (year dt mod 10)]"

text \<open>The pieces of a string between occurrences of a separator character.\<close>

fun pieces_from :: "char \<Rightarrow> string \<Rightarrow> string \<Rightarrow> string list" where
  "pieces_from sep cur [] = [cur]"
| "pieces_from sep cur (ch # cs) =
     (if ch = sep then cur # pieces_from sep [] cs else pieces_from sep (cur @ [ch]) cs)"

text \<open>
  \<open>datetime.strptime(value, "%d.%m.%Y").date()\<close>. The format is matched as the regular
  expression \<open>(3[0-1]|[1-2]\d|0[1-9]|[1-9]| [1-9])\.(1[0-2]|0[1-9]|[1-9])\.(\d\d\d\d)\<close>
  against the whole string, and the three numbers are then given to the checked date
  constructor. Every failure is a \<open>ValueError\<close>.
\<close>

definition parse_day :: "string \<Rightarrow> int option" where
  "parse_day s =
     (case s of
        [a, b] \<Rightarrow>
          if a = CHR ''3'' \<and> (b = CHR ''0'' \<or> b = CHR ''1'') then Some (30 + digit_val b)
          else if (a = CHR ''1'' \<or> a = CHR ''2'') \<and> char_isdecimal b
            then Some (10 * digit_val a + digit_val b)
          else if (a = CHR ''0'' \<or> a = CHR '' '') \<and> char_isdecimal b \<and> b \<noteq> CHR ''0''
            then Some (digit_val b)
          else None
      | [a] \<Rightarrow> if char_isdecimal a \<and> a \<noteq> CHR ''0'' then Some (digit_val a) else None
      | _ \<Rightarrow> None)"

definition parse_month :: "string \<Rightarrow> int option" where
  "parse_month s =
     (case s of
        [a, b] \<Rightarrow>
          if a = CHR ''1'' \<and> (b = CHR ''0'' \<or> b = CHR ''1'' \<or> b = CHR ''2'')
            then Some (10 + digit_val b)
          else if a = CHR ''0'' \<and> char_isdecimal b \<and> b \<noteq> CHR ''0'' then Some (digit_val b)
          else None
      | [a] \<Rightarrow> if char_isdecimal a \<and> a \<noteq> CHR ''0'' then Some (digit_val a) else None
      | _ \<Rightarrow> None)"

definition parse_year :: "string \<Rightarrow> int option" where
  "parse_year s =
     (case s of
        [a, b, c, d] \<Rightarrow>
          if char_isdecimal a \<and> char_isdecimal b \<and> char_isdecimal c \<and> char_isdecimal d
          then Some (1000 * digit_val a + 100 * digit_val b + 10 * digit_val c + digit_val d)
          else None
      | _ \<Rightarrow> None)"

definition strptime_dmy :: "string \<Rightarrow> exn + date" where
  "strptime_dmy s =
     (case pieces_from CHR ''.'' [] s of
        [ds, ms, ys] \<Rightarrow>
          (case (parse_day ds, parse_month ms, parse_year ys) of
             (Some d, Some m, Some y) \<Rightarrow> mk_date y m d
           | _ \<Rightarrow> Inl (ValueError ''time data does not match format''))
      | _ \<Rightarrow> Inl (ValueError ''time data does not match format''))"

section \<open>Fields\<close>

text \<open>
  A field object holds one value. \<open>Name(value)\<close>, \<open>Phone(value)\<close> and \<open>Birthday(value)\<close>
  return the value the new object holds, or the \<open>ValueError\<close> the constructor raises.
\<close>

definition Name :: "string \<Rightarrow> exn + string" where
  "Name v = (if \<not> str_isalpha v then Inl (ValueError ''Name must contain only letters'')
             else Inr v)"

definition Phone :: "string \<Rightarrow> exn + string" where
  "Phone v = (if \<not> str_isdigit v \<or> length v \<noteq> 10
              then Inl (ValueError ''Phone number must contain 10 digits'')
              else Inr v)"

definition Birthday :: "string \<Rightarrow> exn + date" where
  "Birthday v = (case strptime_dmy v of
                   Inl e \<Rightarrow> Inl (ValueError ''Invalid date format. Use DD.MM.YYYY'')
                 | Inr dt \<Rightarrow> Inr dt)"

section \<open>Records\<close>

record Record =
  name :: string
  phones :: "string list"
  birthday :: "date option"

text \<open>\<open>Record(name)\<close>.\<close>

definition Record_init :: "string \<Rightarrow> exn + Record" where
  "Record_init nm = (case Name nm of
                       Inl e \<Rightarrow> Inl e
                     | Inr v \<Rightarrow> Inr \<lparr>name = v, phones = [], birthday = None\<rparr>)"

text \<open>
  The methods that change a record return the record as it is afterwards. \<open>add_phone\<close>,
  \<open>remove_phone\<close> and \<open>add_birthday\<close> raise before they change anything, so their error
  case carries no record; \<open>edit_phone\<close> can raise after it has changed the record, so
  it returns the exception (if any) together with the record.
\<close>

definition add_phone :: "Record \<Rightarrow> string \<Rightarrow> exn + Record" where
  "add_phone r p = (case Phone p of
                      Inl e \<Rightarrow> Inl e
                    | Inr v \<Rightarrow> Inr (r\<lparr>phones := phones r @ [v]\<rparr>))"

definition find_phone :: "Record \<Rightarrow> string \<Rightarrow> string option" where
  "find_phone r p = find (\<lambda>ph. ph = p) (phones r)"

definition remove_phone :: "Record \<Rightarrow> string \<Rightarrow> exn + Record" where
  "remove_phone r p = (case find_phone r p of
                         Some ph \<Rightarrow> Inr (r\<lparr>phones := remove1 ph (phones r)\<rparr>)
                       | None \<Rightarrow> Inl (ValueError ''Phone number is not found''))"

definition edit_phone :: "Record \<Rightarrow> string \<Rightarrow> string \<Rightarrow> exn option \<times> Record" where
  "edit_phone r old_phone_number new_phone_number =
     (case find_phone r old_phone_number of
        Some ph \<Rightarrow>
          (case remove_phone r old_phone_number of
             Inl e \<Rightarrow> (Some e, r)
           | Inr r' \<Rightarrow>
               (case add_phone r' new_phone_number of
                  Inl e \<Rightarrow> (Some e, r')
                | Inr r'' \<Rightarrow> (None, r'')))
      | None \<Rightarrow> (Some (ValueError ''Phone number is not found''), r))"

definition add_birthday :: "Record \<Rightarrow> string \<Rightarrow> exn + Record" where
  "add_birthday r b = (case Birthday b of
                         Inl e \<Rightarrow> Inl e
                       | Inr dt \<Rightarrow> Inr (r\<lparr>birthday := Some dt\<rparr>))"

text \<open>\<open>str(record)\<close>.\<close>

definition Record_str :: "Record \<Rightarrow> string" where
  "Record_str r =
     ''Contact name: '' @ name r @ '', phones: '' @ str_join ''; '' (phones r) @
     '', birthday: '' @
     (case birthday r of Some dt \<Rightarrow> strftime_dmy dt | None \<Rightarrow> ''Not available'')"

section \<open>The address book\<close>

text \<open>
  The book is a dictionary from names to records. A Python dictionary keeps its keys in
  the order of their first insertion, and \<open>get_upcoming_birthdays\<close> reads them in that
  order, so the book is an association list: storing under a key that is present
  replaces the value in place, storing under a new key appends.
\<close>

type_synonym AddressBook = "(string \<times> Record) list"

definition add_record :: "AddressBook \<Rightarrow> Record \<Rightarrow> AddressBook" where
  "add_record book r = AList.update (name r) r book"

definition find_record :: "AddressBook \<Rightarrow> string \<Rightarrow> Record option" where
  "find_record book nm = map_of book nm"

definition delete_record :: "AddressBook \<Rightarrow> string \<Rightarrow> exn + AddressBook" where
  "delete_record book nm =
     (if nm \<in> fst ` set book then Inr (AList.delete nm book)
      else Inl (KeyError ''Contact not found''))"

definition book_values :: "AddressBook \<Rightarrow> Record list" where
  "book_values book = map snd book"

text \<open>One element of the list \<open>get_upcoming_birthdays\<close> returns.\<close>

record upcoming =
  upcoming_name :: string
  upcoming_birthday :: string

text \<open>
  The loop of \<open>get_upcoming_birthdays\<close> over the records, with the list built so far.
  \<open>today\<close> is what \<open>datetime.now().date()\<close> returned.
\<close>

fun upcoming_loop :: "date \<Rightarrow> Record list \<Rightarrow> upcoming list \<Rightarrow> exn + upcoming list" where
  "upcoming_loop today [] upcoming_birthdays = Inr upcoming_birthdays"
| "upcoming_loop today (r # rs) upcoming_birthdays =
     (case birthday r of
        None \<Rightarrow> upcoming_loop today rs upcoming_birthdays
      | Some b \<Rightarrow>
          (case replace_year b (year today) of
             Inl e \<Rightarrow> Inl e
           | Inr bday_this_year \<Rightarrow>
               if 0 \<le> toordinal bday_this_year - toordinal today \<and>
                  toordinal bday_this_year - toordinal today \<le> 7
               then
                 (case (if weekday bday_this_year \<ge> 5
                        then date_add_days bday_this_year (7 - weekday bday_this_year)
                        else Inr bday_this_year) of
                    Inl e \<Rightarrow> Inl e
                  | Inr shown \<Rightarrow>
                      upcoming_loop today rs
                        (upcoming_birthdays @
                           [\<lparr>upcoming_name = name r,
                             upcoming_birthday = strftime_dmy shown\<rparr>]))
               else upcoming_loop today rs upcoming_birthdays))"

definition get_upcoming_birthdays :: "date \<Rightarrow> AddressBook \<Rightarrow> exn + upcoming list" where
  "get_upcoming_birthdays today book = upcoming_loop today (book_values book) []"

text \<open>\<open>str(book)\<close>.\<close>

definition AddressBook_str :: "AddressBook \<Rightarrow> string" where
  "AddressBook_str book = str_join [CHR 0x0A] (map Record_str (book_values book))"

section \<open>Command handlers\<close>

text \<open>
  The decorator \<open>input_error\<close> turns a \<open>ValueError\<close>, a \<open>KeyError\<close> and an
  \<open>IndexError\<close> of the handler it wraps into the line the handler returns; any other
  exception passes through it.
\<close>

definition input_error :: "exn + string \<Rightarrow> exn + string" where
  "input_error res =
     (case res of
        Inr msg \<Rightarrow> Inr msg
      | Inl (ValueError ve) \<Rightarrow> Inr ve
      | Inl (KeyError k) \<Rightarrow> Inr ''Contact is not found''
      | Inl (IndexError ie) \<Rightarrow> Inr ''Enter user name and phone/birthday''
      | Inl e \<Rightarrow> Inl e)"

text \<open>
  A handler returns what the decorated function returns or raises, and the book as the
  handler leaves it: what a handler has changed before it raises stays changed. The
  records are objects of the book, so a method that changes the record found under a
  key changes the book's value at that key. The handler \<open>add_birthday\<close> is
  \<open>add_birthday_cmd\<close> here, the method of the record keeps the name.
\<close>

definition unpack_error :: "nat \<Rightarrow> nat \<Rightarrow> exn" where
  "unpack_error expected got =
     ValueError (''not enough values to unpack (expected at least '' @
       [digit_char (int expected)] @ '', got '' @ [digit_char (int got)] @ '')'')"

definition add_contact :: "string list \<Rightarrow> AddressBook \<Rightarrow> (exn + string) \<times> AddressBook" where
  "add_contact args book =
     (case args of
        nm # phone # rest \<Rightarrow>
          (case find_record book nm of
             None \<Rightarrow>
               (case Record_init nm of
                  Inl e \<Rightarrow> (input_error (Inl e), book)
                | Inr r \<Rightarrow>
                    let book' = add_record book r
                    in if phone \<noteq> []
                       then (case add_phone r phone of
                               Inl e \<Rightarrow> (input_error (Inl e), book')
                             | Inr r' \<Rightarrow>
                                 (input_error (Inr ''Contact added.''),
                                  AList.update (name r) r' book'))
                       else (input_error (Inr ''Contact added.''), book'))
           | Some r \<Rightarrow>
               if phone \<noteq> []
               then (case add_phone r phone of
                       Inl e \<Rightarrow> (input_error (Inl e), book)
                     | Inr r' \<Rightarrow>
                         (input_error (Inr ''Contact updated.''), AList.update nm r' book))
               else (input_error (Inr ''Contact updated.''), book))
      | _ \<Rightarrow> (input_error (Inl (unpack_error 2 (length args))), book))"

definition change_contact :: "string list \<Rightarrow> AddressBook \<Rightarrow> (exn + string) \<times> AddressBook" where
  "change_contact args book =
     (case args of
        nm # old_phone # new_phone # rest \<Rightarrow>
          (case find_record book nm of
             Some r \<Rightarrow>
               (case edit_phone r old_phone new_phone of
                  (Some e, r') \<Rightarrow> (input_error (Inl e), AList.update nm r' book)
                | (None, r') \<Rightarrow>
                    (input_error (Inr ''Contact updated.''), AList.update nm r' book))
           | None \<Rightarrow> (input_error (Inr ''Contact is not found''), book))
      | _ \<Rightarrow> (input_error (Inl (unpack_error 3 (length args))), book))"

definition phone_contact :: "string list \<Rightarrow> AddressBook \<Rightarrow> (exn + string) \<times> AddressBook" where
  "phone_contact args book =
     (case args of
        [] \<Rightarrow> (input_error (Inl (IndexError ''list index out of range'')), book)
      | nm # rest \<Rightarrow>
          (case find_record book nm of
             Some r \<Rightarrow>
               (input_error
                  (Inr (''Contact '' @ nm @ '': '' @ str_join ''; '' (phones r))), book)
           | None \<Rightarrow> (input_error (Inr ''Contact is not found''), book)))"

definition show_all_contacts :: "AddressBook \<Rightarrow> (exn + string) \<times> AddressBook" where
  "show_all_contacts book =
     (if book \<noteq> [] then (input_error (Inr (AddressBook_str book)), book)
      else (input_error (Inr ''Phonebook is empty''), book))"

definition add_birthday_cmd :: "string list \<Rightarrow> AddressBook \<Rightarrow> (exn + string) \<times> AddressBook" where
  "add_birthday_cmd args book =
     (case args of
        nm # bday # rest \<Rightarrow>
          (case find_record book nm of
             Some r \<Rightarrow>
               (case add_birthday r bday of
                  Inl e \<Rightarrow> (input_error (Inl e), book)
                | Inr r' \<Rightarrow> (input_error (Inr ''Birthday added.''), AList.update nm r' book))
           | None \<Rightarrow> (input_error (Inr ''Contact is not found''), book))
      | _ \<Rightarrow> (input_error (Inl (unpack_error 2 (length args))), book))"

definition show_birthday :: "string list \<Rightarrow> AddressBook \<Rightarrow> (exn + string) \<times> AddressBook" where
  "show_birthday args book =
     (case args of
        [] \<Rightarrow> (input_error (Inl (IndexError ''list index out of range'')), book)
      | nm # rest \<Rightarrow>
          (case find_record book nm of
             Some r \<Rightarrow>
               (input_error
                  (Inr (''Contact '' @ nm @ '': Birthday is '' @
                     (case birthday r of Some dt \<Rightarrow> strftime_dmy dt | None \<Rightarrow> ''not set''))),
                book)
           | None \<Rightarrow> (input_error (Inr ''Contact is not found''), book)))"

definition birthdays :: "date \<Rightarrow> string list \<Rightarrow> AddressBook \<Rightarrow> (exn + string) \<times> AddressBook" where
  "birthdays today args book =
     (case get_upcoming_birthdays today book of
        Inl e \<Rightarrow> (input_error (Inl e), book)
      | Inr up \<Rightarrow>
          if up \<noteq> []
          then (input_error
                  (Inr (str_join [CHR 0x0A]
                     (map (\<lambda>u. upcoming_name u @ '': '' @ upcoming_birthday u) up))), book)
          else (input_error (Inr ''No upcoming birthdays in the next 7 days.''), book))"

text \<open>\<open>parse_input\<close> is not decorated: what it raises, its caller gets.\<close>

definition parse_input :: "string \<Rightarrow> exn + string \<times> string list" where
  "parse_input user_input =
     (case str_split user_input of
        [] \<Rightarrow> Inl (unpack_error 1 0)
      | cmd # args \<Rightarrow> Inr (str_lower (str_strip cmd), args))"

section \<open>Persistence\<close>

text \<open>
  The file system, as far as \<open>save_data\<close> and \<open>load_data\<close> meet it: a name has no file,
  or a file the process may not open, or a file whose bytes are not a pickle, or a file
  that holds the pickle of a book. \<open>pickle\<close> is taken at its contract: loading what
  \<open>pickle.dump\<close> wrote gives the object that was written.
\<close>

datatype file_state = Pickled AddressBook | Garbage | Denied

type_synonym filesystem = "string \<Rightarrow> file_state option"

definition no_files :: filesystem where
  "no_files = (\<lambda>filename. None)"

definition FILENAME :: string where
  "FILENAME = ''addressbook.pkl''"

text \<open>\<open>open(filename, "rb")\<close>.\<close>

definition open_rb :: "filesystem \<Rightarrow> string \<Rightarrow> exn + file_state" where
  "open_rb fs filename =
     (case fs filename of
        None \<Rightarrow> Inl FileNotFoundError
      | Some Denied \<Rightarrow> Inl PermissionError
      | Some f \<Rightarrow> Inr f)"

text \<open>\<open>pickle.load(f)\<close>.\<close>

definition pickle_load :: "file_state \<Rightarrow> exn + AddressBook" where
  "pickle_load f = (case f of Pickled book \<Rightarrow> Inr book | _ \<Rightarrow> Inl UnpicklingError)"

text \<open>\<open>save_data\<close> has no handler: what \<open>open(filename, "wb")\<close> raises, it raises.\<close>

definition save_data :: "AddressBook \<Rightarrow> string \<Rightarrow> filesystem \<Rightarrow> exn + filesystem" where
  "save_data book filename fs =
     (case fs filename of
        Some Denied \<Rightarrow> Inl PermissionError
      | _ \<Rightarrow> Inr (fs(filename \<mapsto> Pickled book)))"

text \<open>\<open>load_data\<close> handles \<open>FileNotFoundError\<close> and nothing else.\<close>

definition load_data :: "string \<Rightarrow> filesystem \<Rightarrow> exn + AddressBook" where
  "load_data filename fs =
     (case open_rb fs filename of
        Inl FileNotFoundError \<Rightarrow> Inr []
      | Inl e \<Rightarrow> Inl e
      | Inr f \<Rightarrow> pickle_load f)"

section \<open>The command loop\<close>

text \<open>
  One turn of the loop of \<open>main\<close> on the line \<open>input\<close> returned: the line printed, the
  book and the file system afterwards, and whether the loop goes on. \<open>today\<close> is the
  date of the clock during the turn.
\<close>

definition handled ::
  "filesystem \<Rightarrow> (exn + string) \<times> AddressBook \<Rightarrow> exn + string \<times> AddressBook \<times> filesystem \<times> bool" where
  "handled fs res =
     (case res of
        (Inl e, book) \<Rightarrow> Inl e
      | (Inr msg, book) \<Rightarrow> Inr (msg, book, fs, True))"

definition main_step ::
  "date \<Rightarrow> filesystem \<Rightarrow> AddressBook \<Rightarrow> string \<Rightarrow> exn + string \<times> AddressBook \<times> filesystem \<times> bool" where
  "main_step today fs book user_input =
     (case parse_input user_input of
        Inl e \<Rightarrow> Inl e
      | Inr (command, args) \<Rightarrow>
          if command = ''close'' \<or> command = ''exit''
          then (case save_data book FILENAME fs of
                  Inl e \<Rightarrow> Inl e
                | Inr fs' \<Rightarrow> Inr (''Good bye!'', book, fs', False))
          else if command = ''hello'' then Inr (''How can I help you?'', book, fs, True)
          else if command = ''add'' then handled fs (add_contact args book)
          else if command = ''change'' then handled fs (change_contact args book)
          else if command = ''phone'' then handled fs (phone_contact args book)
          else if command = ''all'' then handled fs (show_all_contacts book)
          else if command = ''add-birthday'' then handled fs (add_birthday_cmd args book)
          else if command = ''show-birthday'' then handled fs (show_birthday args book)
          else if command = ''birthdays'' then handled fs (birthdays today args book)
          else Inr (''Invalid command'', book, fs, True))"

text \<open>
  The loop over the lines of the standard input, each with the date of the clock when
  it is read; \<open>input\<close> raises \<open>EOFError\<close> when the input has ended. The result is the
  lines printed (the prompts left out), the book and the file system.
\<close>

fun main_loop ::
  "filesystem \<Rightarrow> AddressBook \<Rightarrow> (date \<times> string) list \<Rightarrow> string list \<Rightarrow>
   exn + string list \<times> AddressBook \<times> filesystem" where
  "main_loop fs book [] out = Inl EOFError"
| "main_loop fs book ((today, user_input) # rest) out =
     (case main_step today fs book user_input of
        Inl e \<Rightarrow> Inl e
      | Inr (msg, book', fs', continue) \<Rightarrow>
          if continue then main_loop fs' book' rest (out @ [msg])
          else Inr (out @ [msg], book', fs'))"

definition main ::
  "filesystem \<Rightarrow> (date \<times> string) list \<Rightarrow> exn + string list \<times> AddressBook \<times> filesystem" where
  "main fs inputs =
     (case load_data FILENAME fs of
        Inl e \<Rightarrow> Inl e
      | Inr book \<Rightarrow> main_loop fs book inputs [''Welcome to the assistant bot!''])"

section \<open>Invariants of the data\<close>

text \<open>
  Every record of a book built by the program lies under its own name, and every
  birthday is a date the date constructor has accepted.
\<close>

definition book_keys_ok :: "AddressBook \<Rightarrow> bool" where
  "book_keys_ok book \<longleftrightarrow> distinct (map fst book) \<and> list_all (\<lambda>(k, r). name r = k) book"

definition birthdays_valid :: "Record list \<Rightarrow> bool" where
  "birthdays_valid rs \<longleftrightarrow>
     list_all (\<lambda>r. case birthday r of None \<Rightarrow> True | Some b \<Rightarrow> valid_date b) rs"

text \<open>The month and day that \<open>ord2ymd\<close> finds from the day of the year.\<close>

definition month_day_of :: "int \<Rightarrow> int \<Rightarrow> bool \<Rightarrow> date" where
  "month_day_of y n leapyear =
     (let m = (n + 50) div 32;
          preceding = DAYS_BEFORE_MONTH ! nat m + (if m > 2 \<and> leapyear then 1 else 0)
      in if preceding > n
         then let m' = m - 1;
                  preceding' = preceding -
                    (DAYS_IN_MONTH ! nat m' + (if m' = 2 \<and> leapyear then 1 else 0))
              in \<lparr>year = y, month = m', day = n - preceding' + 1\<rparr>
         else \<lparr>year = y, month = m, day = n - preceding + 1\<rparr>)"

text \<open>
  What one turn of the loop of \<open>get_upcoming_birthdays\<close> does with a record: it raises,
  or it adds nothing, or it adds one element.
\<close>

definition record_entry :: "date \<Rightarrow> Record \<Rightarrow> exn + upcoming option" where
  "record_entry today r =
     (case birthday r of
        None \<Rightarrow> Inr None
      | Some b \<Rightarrow>
          (case replace_year b (year today) of
             Inl e \<Rightarrow> Inl e
           | Inr bday_this_year \<Rightarrow>
               if 0 \<le> toordinal bday_this_year - toordinal today \<and>
                  toordinal bday_this_year - toordinal today \<le> 7
               then
                 (case (if weekday bday_this_year \<ge> 5
                        then date_add_days bday_this_year (7 - weekday bday_this_year)
                        else Inr bday_this_year) of
                    Inl e \<Rightarrow> Inl e
                  | Inr shown \<Rightarrow>
                      Inr (Some \<lparr>upcoming_name = name r,
                                 upcoming_birthday = strftime_dmy shown\<rparr>))
               else Inr None))"

definition entries_of :: "date \<Rightarrow> Record list \<Rightarrow> upcoming list" where
  "entries_of today rs =
     concat (map (\<lambda>r. case record_entry today r of Inr (Some u) \<Rightarrow> [u] | _ \<Rightarrow> []) rs)"

text \<open>Both invariants together, and what they ask of the record under a key.\<close>

definition book_ok :: "AddressBook \<Rightarrow> bool" where
  "book_ok book \<longleftrightarrow> book_keys_ok book \<and> birthdays_valid (book_values book)"

definition record_ok :: "string \<Rightarrow> Record \<Rightarrow> bool" where
  "record_ok k r \<longleftrightarrow> name r = k \<and> (case birthday r of None \<Rightarrow> True | Some b \<Rightarrow> valid_date b)"

section \<open>Properties of the calendar\<close>

text \<open>
  The number of days before a year grows with the year, so the ordinal of a valid date
  lies between 1 and \<open>MAXORDINAL\<close>.
\<close>

lemma div_succ:
  fixes x k :: int
  assumes "0 < k"
  shows "(x + 1) div k = (if x mod k = k - 1 then x div k + 1 else x div k)"
proof (cases "x mod k = k - 1")
  case True
  have "(x + 1) div k = x div k + 1"
  proof (rule int_div_pos_eq [where r = 0])
    have "x = k * (x div k) + x mod k" by simp
    then have "x + 1 = k * (x div k) + k" using True by simp
    then show "x + 1 = k * (x div k + 1) + 0" by (simp add: algebra_simps)
  qed (use assms in simp_all)
  with True show ?thesis by simp
next
  case False
  have lt: "x mod k < k" and ge: "0 \<le> x mod k" using assms by simp_all
  have "(x + 1) div k = x div k"
  proof (rule int_div_pos_eq [where r = "x mod k + 1"])
    show "x + 1 = k * (x div k) + (x mod k + 1)" by simp
    show "0 \<le> x mod k + 1" using ge by simp
    show "x mod k + 1 < k" using lt False by simp
  qed
  with False show ?thesis by simp
qed

lemma dby_step: "days_before_year y + 365 \<le> days_before_year (y + 1)"
proof -
  define Y where "Y = y - 1"
  have m: "Y mod 100 = 99 \<Longrightarrow> Y mod 4 = 3"
  proof -
    assume a: "Y mod 100 = 99"
    have "Y mod 100 mod 4 = Y mod 4" by (rule mod_mod_cancel) simp
    with a show ?thesis by simp
  qed
  have s4: "(Y + 1) div 4 = (if Y mod 4 = 3 then Y div 4 + 1 else Y div 4)"
    using div_succ [of 4 Y] by simp
  have s100: "(Y + 1) div 100 = (if Y mod 100 = 99 then Y div 100 + 1 else Y div 100)"
    using div_succ [of 100 Y] by simp
  have s400: "(Y + 1) div 400 = (if Y mod 400 = 399 then Y div 400 + 1 else Y div 400)"
    using div_succ [of 400 Y] by simp
  have e1: "days_before_year y = Y * 365 + Y div 4 - Y div 100 + Y div 400"
    unfolding days_before_year_def Y_def by simp
  have e2: "days_before_year (y + 1) =
      (Y + 1) * 365 + (Y + 1) div 4 - (Y + 1) div 100 + (Y + 1) div 400"
    unfolding days_before_year_def Y_def by simp
  show ?thesis
    unfolding e1 e2 s4 s100 s400 using m
    by (cases "Y mod 4 = 3"; cases "Y mod 100 = 99"; cases "Y mod 400 = 399")
       (simp_all add: algebra_simps)
qed

lemma dby_mono_nat: "days_before_year y \<le> days_before_year (y + int k)"
proof (induction k)
  case 0
  then show ?case by simp
next
  case (Suc k)
  have eq: "y + int (Suc k) = y + int k + 1" by simp
  have "days_before_year (y + int k) \<le> days_before_year (y + int k + 1)"
    using dby_step [of "y + int k"] by simp
  with Suc show ?case unfolding eq by (rule order_trans)
qed

lemma dby_mono: "y \<le> z \<Longrightarrow> days_before_year y \<le> days_before_year z"
  using dby_mono_nat [of y "nat (z - y)"] by simp

lemma dby_1: "days_before_year 1 = 0" by (simp add: days_before_year_def)
lemma dby_9998: "days_before_year 9998 = 3651329" by (simp add: days_before_year_def)
lemma dby_9999: "days_before_year 9999 = 3651694" by (simp add: days_before_year_def)

lemma month_cases:
  fixes m :: int
  assumes "1 \<le> m" "m \<le> 12"
  obtains "m = 1" | "m = 2" | "m = 3" | "m = 4" | "m = 5" | "m = 6"
    | "m = 7" | "m = 8" | "m = 9" | "m = 10" | "m = 11" | "m = 12"
proof -
  from assms have "m = 1 \<or> m = 2 \<or> m = 3 \<or> m = 4 \<or> m = 5 \<or> m = 6
    \<or> m = 7 \<or> m = 8 \<or> m = 9 \<or> m = 10 \<or> m = 11 \<or> m = 12"
    by arith
  then show thesis using that by blast
qed

lemma dbm_dim_bounds:
  assumes "1 \<le> m" "m \<le> 12"
  shows "0 \<le> days_before_month y m"
    and "days_before_month y m + days_in_month y m \<le> (if is_leap y then 366 else 365)"
  using assms(1,2)
  by (cases m rule: month_cases;
      simp add: days_before_month_def days_in_month_def DAYS_BEFORE_MONTH_def DAYS_IN_MONTH_def)+

lemma toordinal_bounds:
  assumes "valid_date dt"
  shows "1 \<le> toordinal dt" and "toordinal dt \<le> MAXORDINAL"
proof -
  from assms have y: "1 \<le> year dt" "year dt \<le> 9999" and m: "1 \<le> month dt" "month dt \<le> 12"
    and d: "1 \<le> day dt" "day dt \<le> days_in_month (year dt) (month dt)"
    by (simp_all add: valid_date_def MINYEAR_def MAXYEAR_def)
  have lo: "0 \<le> days_before_year (year dt)" using dby_mono [OF y(1)] dby_1 by simp
  from lo dbm_dim_bounds(1) [OF m, of "year dt"] d(1) show "1 \<le> toordinal dt"
    by (simp add: toordinal_def ymd2ord_def)
  have up: "days_before_month (year dt) (month dt) + day dt \<le> (if is_leap (year dt) then 366 else 365)"
    using dbm_dim_bounds(2) [OF m, of "year dt"] d(2) by (simp split: if_splits)
  show "toordinal dt \<le> MAXORDINAL"
  proof (cases "year dt = 9999")
    case True
    have "\<not> is_leap 9999" by (simp add: is_leap_def)
    with up True dby_9999 show ?thesis
      by (simp add: toordinal_def ymd2ord_def MAXORDINAL_def)
  next
    case False
    with y have "year dt \<le> 9998" by simp
    from dby_mono [OF this] dby_9998 have "days_before_year (year dt) \<le> 3651329" by simp
    with up show ?thesis
      by (simp add: toordinal_def ymd2ord_def MAXORDINAL_def split: if_splits)
  qed
qed


text \<open>
  \<open>ord2ymd\<close> inverts \<open>toordinal\<close>: the date it finds for an ordinal is valid and has that
  ordinal. The year comes from the 400, 100, 4 and 1 year cycles, the month and the day
  from the day of the year.
\<close>

lemma month_day_of_spec:
  assumes "0 \<le> n" "n \<le> 364"
  shows "year (month_day_of y n L) = y \<and>
         1 \<le> month (month_day_of y n L) \<and> month (month_day_of y n L) \<le> 12 \<and>
         1 \<le> day (month_day_of y n L) \<and>
         day (month_day_of y n L) \<le>
           (if month (month_day_of y n L) = 2 \<and> L then 29
            else DAYS_IN_MONTH ! nat (month (month_day_of y n L))) \<and>
         DAYS_BEFORE_MONTH ! nat (month (month_day_of y n L)) +
           (if month (month_day_of y n L) > 2 \<and> L then 1 else 0) +
           day (month_day_of y n L) = n + 1"
proof -
  define m where "m = (n + 50) div 32"
  have lo: "32 * m \<le> n + 50" and hi: "n + 50 < 32 * m + 32"
    unfolding m_def by simp_all
  from lo hi assms have m: "1 \<le> m" "m \<le> 12" by simp_all
  from m lo hi assms show ?thesis
    by (cases m rule: month_cases)
       (simp_all add: month_day_of_def m_def [symmetric] DAYS_BEFORE_MONTH_def DAYS_IN_MONTH_def)
qed

lemma dby_decomp:
  assumes "0 \<le> b" "b \<le> 3" "0 \<le> c" "c \<le> 24" "0 \<le> d" "d \<le> 3"
  shows "days_before_year (400 * a + 100 * b + 4 * c + d + 1)
           = 146097 * a + 36524 * b + 1461 * c + 365 * d"
proof -
  let ?Y = "400 * a + 100 * b + 4 * c + d"
  have d4: "?Y div 4 = 100 * a + 25 * b + c"
    by (rule int_div_pos_eq [where r = d]) (use assms in simp_all)
  have d100: "?Y div 100 = 4 * a + b"
    by (rule int_div_pos_eq [where r = "4 * c + d"]) (use assms in simp_all)
  have d400: "?Y div 400 = a"
    by (rule int_div_pos_eq [where r = "100 * b + 4 * c + d"]) (use assms in simp_all)
  show ?thesis unfolding days_before_year_def using d4 d100 d400 by simp
qed

lemma is_leap_decomp:
  assumes "0 \<le> b" "b \<le> 3" "0 \<le> c" "c \<le> 24" "0 \<le> d" "d \<le> 3"
  shows "is_leap (400 * a + 100 * b + 4 * c + d + 1) \<longleftrightarrow> (d = 3 \<and> (c \<noteq> 24 \<or> b = 3))"
proof -
  let ?y = "400 * a + 100 * b + 4 * c + d + 1"
  have m4: "?y mod 4 = (if d = 3 then 0 else d + 1)"
  proof (cases "d = 3")
    case True
    have "?y mod 4 = 0"
      by (rule int_mod_pos_eq [where q = "100 * a + 25 * b + c + 1"]) (use True in simp_all)
    then show ?thesis using True by simp
  next
    case False
    have "?y mod 4 = d + 1"
      by (rule int_mod_pos_eq [where q = "100 * a + 25 * b + c"]) (use False assms in simp_all)
    then show ?thesis using False by simp
  qed
  have m100: "?y mod 100 = (if c = 24 \<and> d = 3 then 0 else 4 * c + d + 1)"
  proof (cases "c = 24 \<and> d = 3")
    case True
    have "?y mod 100 = 0"
      by (rule int_mod_pos_eq [where q = "4 * a + b + 1"]) (use True in simp_all)
    then show ?thesis using True by simp
  next
    case False
    have "?y mod 100 = 4 * c + d + 1"
      by (rule int_mod_pos_eq [where q = "4 * a + b"]) (use False assms in auto)
    then show ?thesis using False by simp
  qed
  have m400: "?y mod 400 = (if b = 3 \<and> c = 24 \<and> d = 3 then 0 else 100 * b + 4 * c + d + 1)"
  proof (cases "b = 3 \<and> c = 24 \<and> d = 3")
    case True
    have "?y mod 400 = 0"
      by (rule int_mod_pos_eq [where q = "a + 1"]) (use True in simp_all)
    then show ?thesis using True by simp
  next
    case False
    have "?y mod 400 = 100 * b + 4 * c + d + 1"
      by (rule int_mod_pos_eq [where q = "a"]) (use False assms in auto)
    then show ?thesis using False by simp
  qed
  show ?thesis unfolding is_leap_def m4 m100 m400 using assms by auto
qed




lemma ord2ymd_cases:
  fixes n :: int
  defines "a \<equiv> (n - 1) div 146097" and "r1 \<equiv> (n - 1) mod 146097"
  defines "b \<equiv> r1 div 36524" and "r2 \<equiv> r1 mod 36524"
  defines "c \<equiv> r2 div 1461" and "r3 \<equiv> r2 mod 1461"
  defines "d \<equiv> r3 div 365" and "r4 \<equiv> r3 mod 365"
  shows "ord2ymd n =
     (if d = 4 \<or> b = 4
      then \<lparr>year = a * 400 + 1 + b * 100 + c * 4 + d - 1, month = 12, day = 31\<rparr>
      else month_day_of (a * 400 + 1 + b * 100 + c * 4 + d) r4 (d = 3 \<and> (c \<noteq> 24 \<or> b = 3)))"
  unfolding ord2ymd_def month_day_of_def Let_def a_def r1_def b_def r2_def c_def r3_def d_def r4_def
  by (rule refl)




lemma ord2ymd_correct:
  assumes "1 \<le> n"
  shows "toordinal (ord2ymd n) = n"
    and "1 \<le> year (ord2ymd n)"
    and "1 \<le> month (ord2ymd n) \<and> month (ord2ymd n) \<le> 12"
    and "1 \<le> day (ord2ymd n) \<and> day (ord2ymd n) \<le> days_in_month (year (ord2ymd n)) (month (ord2ymd n))"
    and "n \<le> MAXORDINAL \<Longrightarrow> year (ord2ymd n) \<le> MAXYEAR"
proof -
  define a where "a = (n - 1) div 146097"
  define r1 where "r1 = (n - 1) mod 146097"
  define b where "b = r1 div 36524"
  define r2 where "r2 = r1 mod 36524"
  define c where "c = r2 div 1461"
  define r3 where "r3 = r2 mod 1461"
  define d where "d = r3 div 365"
  define r4 where "r4 = r3 mod 365"
  have e0: "n - 1 = 146097 * a + r1" unfolding a_def r1_def by simp
  have e1: "r1 = 36524 * b + r2" unfolding b_def r2_def by simp
  have e2: "r2 = 1461 * c + r3" unfolding c_def r3_def by simp
  have e3: "r3 = 365 * d + r4" unfolding d_def r4_def by simp
  have b1: "0 \<le> r1" "r1 < 146097" unfolding r1_def by simp_all
  have b2: "0 \<le> r2" "r2 < 36524" unfolding r2_def by simp_all
  have b3: "0 \<le> r3" "r3 < 1461" unfolding r3_def by simp_all
  have b4: "0 \<le> r4" "r4 < 365" unfolding r4_def by simp_all
  have a0: "0 \<le> a" unfolding a_def using assms by (simp add: pos_imp_zdiv_nonneg_iff)
  have bb: "0 \<le> b" "b \<le> 4" using e1 b1 b2 unfolding b_def
    by (simp_all add: pos_imp_zdiv_nonneg_iff) 
  have cc: "0 \<le> c" "c \<le> 24" using e2 b2 b3 unfolding c_def
    by (simp_all add: pos_imp_zdiv_nonneg_iff)
  have dd: "0 \<le> d" "d \<le> 4" using e3 b3 b4 unfolding d_def
    by (simp_all add: pos_imp_zdiv_nonneg_iff)
  note oc = ord2ymd_cases [of n, folded a_def r1_def b_def r2_def c_def r3_def d_def r4_def]
  have all: "toordinal (ord2ymd n) = n \<and> 1 \<le> year (ord2ymd n) \<and>
    (1 \<le> month (ord2ymd n) \<and> month (ord2ymd n) \<le> 12) \<and>
    (1 \<le> day (ord2ymd n) \<and> day (ord2ymd n) \<le> days_in_month (year (ord2ymd n)) (month (ord2ymd n))) \<and>
    (n \<le> MAXORDINAL \<longrightarrow> year (ord2ymd n) \<le> MAXYEAR)"
  proof (cases "b = 4")
    case True
    with e1 b1 b2 have r2: "r2 = 0" by simp
    with e2 b3 cc have c0: "c = 0" and r3: "r3 = 0" by simp_all
    with e3 b4 dd have d0: "d = 0" and r4: "r4 = 0" by simp_all
    have o: "ord2ymd n = \<lparr>year = 400 * a + 400, month = 12, day = 31\<rparr>"
      using oc True c0 d0 by simp
    have y: "400 * a + 400 = 400 * a + 100 * 3 + 4 * 24 + 3 + 1" by simp
    have dby: "days_before_year (400 * a + 400) = 146097 * a + 145731"
      unfolding y by (subst dby_decomp) simp_all
    have lp: "is_leap (400 * a + 400)"
      unfolding y by (subst is_leap_decomp) simp_all
    have nn: "n = 146097 * a + 146097" using e0 e1 True r2 by simp
    have yb: "n \<le> MAXORDINAL \<longrightarrow> 400 * a + 400 \<le> MAXYEAR"
      using nn a0 by (simp add: MAXORDINAL_def MAXYEAR_def)
    show ?thesis
      using o dby lp nn a0 yb
      by (simp add: toordinal_def ymd2ord_def days_before_month_def days_in_month_def
          DAYS_BEFORE_MONTH_def DAYS_IN_MONTH_def)
  next
    case nb4: False
    with bb have b3': "b \<le> 3" by simp
    show ?thesis
    proof (cases "d = 4")
      case True
      with e3 b3 b4 have r4: "r4 = 0" and r3: "r3 = 1460" by simp_all
      with e2 b2 cc have c23: "c \<le> 23" by simp
      have o: "ord2ymd n = \<lparr>year = 400 * a + 100 * b + 4 * c + 3 + 1, month = 12, day = 31\<rparr>"
        using oc True by simp
      have dby: "days_before_year (400 * a + 100 * b + 4 * c + 3 + 1)
          = 146097 * a + 36524 * b + 1461 * c + 365 * 3"
        by (rule dby_decomp) (use bb b3' cc c23 in simp_all)
      have lp: "is_leap (400 * a + 100 * b + 4 * c + 3 + 1)"
        by (subst is_leap_decomp) (use bb b3' cc c23 in simp_all)
      have nn: "n = 146097 * a + 36524 * b + 1461 * c + 1461" using e0 e1 e2 r3 by simp
      have yb: "n \<le> MAXORDINAL \<longrightarrow> 400 * a + 100 * b + 4 * c + 3 + 1 \<le> MAXYEAR"
        using nn a0 bb b3' cc c23 unfolding MAXORDINAL_def MAXYEAR_def by arith
      show ?thesis
        using o dby lp nn a0 bb cc yb
        by (simp add: toordinal_def ymd2ord_def days_before_month_def days_in_month_def
            DAYS_BEFORE_MONTH_def DAYS_IN_MONTH_def)
    next
      case False
      with dd have d3: "d \<le> 3" by simp
      let ?y = "400 * a + 100 * b + 4 * c + d + 1"
      let ?L = "d = 3 \<and> (c \<noteq> 24 \<or> b = 3)"
      have yeq: "a * 400 + 1 + b * 100 + c * 4 + d = ?y" by simp
      have o: "ord2ymd n = month_day_of ?y r4 ?L"
        using oc False nb4 unfolding yeq by simp
      have dby: "days_before_year ?y = 146097 * a + 36524 * b + 1461 * c + 365 * d"
        by (rule dby_decomp) (use bb b3' cc dd d3 in simp_all)
      have lp: "is_leap ?y \<longleftrightarrow> ?L"
        by (rule is_leap_decomp) (use bb b3' cc dd d3 in simp_all)
      have md: "year (month_day_of ?y r4 ?L) = ?y \<and>
         1 \<le> month (month_day_of ?y r4 ?L) \<and> month (month_day_of ?y r4 ?L) \<le> 12 \<and>
         1 \<le> day (month_day_of ?y r4 ?L) \<and>
         day (month_day_of ?y r4 ?L) \<le>
           (if month (month_day_of ?y r4 ?L) = 2 \<and> ?L then 29
            else DAYS_IN_MONTH ! nat (month (month_day_of ?y r4 ?L))) \<and>
         DAYS_BEFORE_MONTH ! nat (month (month_day_of ?y r4 ?L)) +
           (if month (month_day_of ?y r4 ?L) > 2 \<and> ?L then 1 else 0) +
           day (month_day_of ?y r4 ?L) = r4 + 1"
        by (rule month_day_of_spec) (use b4 in simp_all)
      have nn: "n = 146097 * a + 36524 * b + 1461 * c + 365 * d + r4 + 1"
        using e0 e1 e2 e3 by simp
      have yb: "n \<le> MAXORDINAL \<longrightarrow> ?y \<le> MAXYEAR"
        using nn a0 bb b3' cc dd d3 b4 unfolding MAXORDINAL_def MAXYEAR_def by arith
      have y1: "1 \<le> ?y" using a0 bb cc dd by simp
      show ?thesis
        unfolding o toordinal_def ymd2ord_def days_before_month_def days_in_month_def
        using md dby lp nn yb y1 by simp
    qed
  qed
  from all show "toordinal (ord2ymd n) = n"
    and "1 \<le> year (ord2ymd n)"
    and "1 \<le> month (ord2ymd n) \<and> month (ord2ymd n) \<le> 12"
    and "1 \<le> day (ord2ymd n) \<and> day (ord2ymd n) \<le> days_in_month (year (ord2ymd n)) (month (ord2ymd n))"
    and "n \<le> MAXORDINAL \<Longrightarrow> year (ord2ymd n) \<le> MAXYEAR"
    by simp_all
qed




text \<open>
  The last day of the calendar is a Friday: the Monday after a Saturday or a Sunday of
  the calendar is a day of the calendar.
\<close>

lemma weekend_shift_bound: "1 \<le> (n::int) \<Longrightarrow> n \<le> 3652059 \<Longrightarrow> 5 \<le> (n + 6) mod 7 \<Longrightarrow> n + (7 - (n + 6) mod 7) \<le> 3652059"
proof -
  assume a: "1 \<le> n" "n \<le> 3652059" "5 \<le> (n + 6) mod 7"
  define q where "q = (n + 6) div 7"
  define r where "r = (n + 6) mod 7"
  have e: "n + 6 = 7 * q + r" unfolding q_def r_def by simp
  have rb: "0 \<le> r" "r < 7" unfolding r_def by simp_all
  from a(3) have r5: "5 \<le> r" unfolding r_def .
  from e a(2) r5 have "7 * q \<le> 3652060" by simp
  then have "q \<le> 521722" by simp
  then show ?thesis using e r5 rb unfolding r_def [symmetric] by simp
qed

section \<open>The loop of the birthday query\<close>

text \<open>
  The loop treats the records one by one: it returns the elements of all of them when
  none raises, and raises what the first failing record raises.
\<close>

lemma upcoming_loop_Cons:
  "upcoming_loop today (r # rs) acc =
     (case record_entry today r of
        Inl e \<Rightarrow> Inl e
      | Inr None \<Rightarrow> upcoming_loop today rs acc
      | Inr (Some u) \<Rightarrow> upcoming_loop today rs (acc @ [u]))"
  by (simp add: record_entry_def split: option.splits sum.splits)

declare upcoming_loop.simps(2) [simp del]

lemma upcoming_loop_Inr:
  "upcoming_loop today rs acc = Inr res \<Longrightarrow>
     list_all (\<lambda>r. \<exists>x. record_entry today r = Inr x) rs \<and> res = acc @ entries_of today rs"
proof (induction rs arbitrary: acc)
  case Nil
  then show ?case by (simp add: entries_of_def)
next
  case (Cons r rs)
  show ?case
  proof (cases "record_entry today r")
    case (Inl e)
    with Cons.prems show ?thesis by (simp add: upcoming_loop_Cons)
  next
    case (Inr x)
    show ?thesis
    proof (cases x)
      case None
      with Inr Cons.prems have "upcoming_loop today rs acc = Inr res"
        by (simp add: upcoming_loop_Cons)
      from Cons.IH [OF this] Inr None show ?thesis by (simp add: entries_of_def)
    next
      case (Some u)
      with Inr Cons.prems have "upcoming_loop today rs (acc @ [u]) = Inr res"
        by (simp add: upcoming_loop_Cons)
      from Cons.IH [OF this] Inr Some show ?thesis by (simp add: entries_of_def)
    qed
  qed
qed

lemma upcoming_loop_total:
  "list_all (\<lambda>r. \<exists>x. record_entry today r = Inr x) rs \<Longrightarrow>
     upcoming_loop today rs acc = Inr (acc @ entries_of today rs)"
proof (induction rs arbitrary: acc)
  case Nil
  then show ?case by (simp add: entries_of_def)
next
  case (Cons r rs)
  from Cons.prems obtain x where x: "record_entry today r = Inr x"
    and rest: "list_all (\<lambda>r. \<exists>x. record_entry today r = Inr x) rs" by auto
  show ?case
    using Cons.IH [OF rest] x
    by (cases x) (simp_all add: upcoming_loop_Cons entries_of_def)
qed

lemma upcoming_loop_Inl:
  "upcoming_loop today rs acc = Inl e \<Longrightarrow> \<exists>r \<in> set rs. record_entry today r = Inl e"
proof (induction rs arbitrary: acc)
  case Nil
  then show ?case by simp
next
  case (Cons r rs)
  show ?case
  proof (cases "record_entry today r")
    case (Inl e')
    with Cons.prems show ?thesis by (simp add: upcoming_loop_Cons)
  next
    case (Inr x)
    with Cons.prems Cons.IH show ?thesis
      by (cases x) (auto simp: upcoming_loop_Cons)
  qed
qed

lemma upcoming_loop_fails:
  "r \<in> set rs \<Longrightarrow> record_entry today r = Inl e \<Longrightarrow> \<exists>e'. upcoming_loop today rs acc = Inl e'"
proof (induction rs arbitrary: acc)
  case Nil
  then show ?case by simp
next
  case (Cons r' rs)
  show ?case
  proof (cases "record_entry today r'")
    case (Inl e')
    then show ?thesis by (simp add: upcoming_loop_Cons)
  next
    case (Inr x)
    with Cons.prems have "r \<in> set rs" by auto
    from Cons.IH [OF this Cons.prems(2)] Inr show ?thesis
      by (cases x) (simp_all add: upcoming_loop_Cons)
  qed
qed

lemma set_entries_of:
  "u \<in> set (entries_of today rs) \<longleftrightarrow> (\<exists>r \<in> set rs. record_entry today r = Inr (Some u))"
proof (induction rs)
  case Nil
  show ?case by (simp add: entries_of_def)
next
  case (Cons r rs)
  have "entries_of today (r # rs) =
      (case record_entry today r of Inr (Some u) \<Rightarrow> [u] | _ \<Rightarrow> []) @ entries_of today rs"
    by (simp add: entries_of_def)
  with Cons show ?case
    by (cases "record_entry today r") (auto split: option.splits)
qed

lemma next_monday:
  fixes n :: int
  shows "(n + (7 - (n + 6) mod 7) + 6) mod 7 = 0"
proof -
  have "n + (7 - (n + 6) mod 7) + 6 = 7 * ((n + 6) div 7 + 1) + 0"
    by (simp add: algebra_simps)
  then show ?thesis by (metis add.right_neutral mod_mult_self1_is_0)
qed

lemma date_add_days_Inr:
  assumes "date_add_days dt k = Inr shown"
  shows "toordinal shown = toordinal dt + k" and "valid_date shown"
proof -
  from assms have r: "0 < toordinal dt + k" "toordinal dt + k \<le> MAXORDINAL"
    and s: "shown = ord2ymd (toordinal dt + k)"
    by (auto simp: date_add_days_def Let_def split: if_splits)
  from r(1) have one: "1 \<le> toordinal dt + k" by simp
  show "toordinal shown = toordinal dt + k" unfolding s by (rule ord2ymd_correct(1) [OF one])
  show "valid_date shown"
    unfolding s valid_date_def MINYEAR_def
    using ord2ymd_correct(2,3,4) [OF one] ord2ymd_correct(5) [OF one r(2)] by simp
qed

lemma mk_date_Inr: "mk_date y m d = Inr dt \<Longrightarrow> valid_date dt \<and> year dt = y \<and> month dt = m \<and> day dt = d"
  by (auto simp: mk_date_def valid_date_def split: if_splits)

lemma record_entry_Some:
  assumes "record_entry today r = Inr (Some u)"
  shows "\<exists>b occ shown. birthday r = Some b \<and> replace_year b (year today) = Inr occ \<and>
           0 \<le> toordinal occ - toordinal today \<and> toordinal occ - toordinal today \<le> 7 \<and>
           u = \<lparr>upcoming_name = name r, upcoming_birthday = strftime_dmy shown\<rparr> \<and>
           valid_date shown \<and>
           (if 5 \<le> weekday occ
            then weekday shown = 0 \<and> toordinal shown = toordinal occ + (7 - weekday occ)
            else shown = occ)"
proof -
  from assms obtain b where b: "birthday r = Some b"
    by (auto simp: record_entry_def split: option.splits)
  from assms b obtain occ where occ: "replace_year b (year today) = Inr occ"
    by (auto simp: record_entry_def split: sum.splits)
  from assms b occ have w: "0 \<le> toordinal occ - toordinal today" "toordinal occ - toordinal today \<le> 7"
    by (auto simp: record_entry_def split: if_splits)
  show ?thesis
  proof (cases "5 \<le> weekday occ")
    case True
    with assms b occ w obtain shown where
      sh: "date_add_days occ (7 - weekday occ) = Inr shown"
      and u: "u = \<lparr>upcoming_name = name r, upcoming_birthday = strftime_dmy shown\<rparr>"
      by (auto simp: record_entry_def split: sum.splits)
    have t: "toordinal shown = toordinal occ + (7 - weekday occ)"
      by (rule date_add_days_Inr(1) [OF sh])
    have v: "valid_date shown" by (rule date_add_days_Inr(2) [OF sh])
    have "weekday shown = 0"
      unfolding weekday_def [of shown] t unfolding weekday_def by (rule next_monday)
    with b occ w u t v True show ?thesis
      by (intro exI [of _ b] exI [of _ occ] exI [of _ shown]) simp
  next
    case False
    from occ have v: "valid_date occ" by (auto simp: replace_year_def dest: mk_date_Inr)
    from False assms b occ w
    have "u = \<lparr>upcoming_name = name r, upcoming_birthday = strftime_dmy occ\<rparr>"
      by (auto simp: record_entry_def)
    with b occ w v False show ?thesis
      by (intro exI [of _ b] exI [of _ occ] exI [of _ occ]) simp
  qed
qed

lemma record_entry_None:
  assumes "record_entry today r = Inr None" "birthday r = Some b"
  shows "\<exists>occ. replace_year b (year today) = Inr occ \<and>
           \<not> (0 \<le> toordinal occ - toordinal today \<and> toordinal occ - toordinal today \<le> 7)"
  using assms by (auto simp: record_entry_def split: sum.splits if_splits)

lemma shift_in_calendar:
  assumes "valid_date occ" "5 \<le> weekday occ"
  shows "\<exists>shown. date_add_days occ (7 - weekday occ) = Inr shown"
proof -
  from toordinal_bounds [OF assms(1)] have b: "1 \<le> toordinal occ" "toordinal occ \<le> 3652059"
    by (simp_all add: MAXORDINAL_def)
  from assms(2) have w5: "5 \<le> (toordinal occ + 6) mod 7" by (simp add: weekday_def)
  have up: "toordinal occ + (7 - (toordinal occ + 6) mod 7) \<le> 3652059"
    by (rule weekend_shift_bound [OF b w5])
  have "(toordinal occ + 6) mod 7 < 7" by simp
  with b(1) have lo: "0 < toordinal occ + (7 - (toordinal occ + 6) mod 7)" by simp
  from up lo show ?thesis
    by (simp add: date_add_days_def Let_def weekday_def MAXORDINAL_def)
qed

lemma record_entry_Inl:
  assumes "record_entry today r = Inl e" "valid_date today"
    and "case birthday r of None \<Rightarrow> True | Some b \<Rightarrow> valid_date b"
  shows "e = ValueError ''day is out of range for month''"
proof -
  from assms(1) obtain b where b: "birthday r = Some b"
    by (auto simp: record_entry_def split: option.splits)
  with assms(3) have vb: "valid_date b" by simp
  show ?thesis
  proof (cases "replace_year b (year today)")
    case (Inl e')
    with assms(1) b have "e = e'" by (simp add: record_entry_def)
    with Inl vb assms(2) show ?thesis
      by (auto simp: replace_year_def mk_date_def valid_date_def split: if_splits)
  next
    case (Inr occ)
    then have vo: "valid_date occ" by (auto simp: replace_year_def dest: mk_date_Inr)
    show ?thesis
    proof (cases "5 \<le> weekday occ")
      case True
      from shift_in_calendar [OF vo True] obtain shown
        where "date_add_days occ (7 - weekday occ) = Inr shown" ..
      with assms(1) b Inr True show ?thesis
        by (auto simp: record_entry_def split: if_splits)
    next
      case False
      with assms(1) b Inr show ?thesis
        by (auto simp: record_entry_def split: if_splits)
    qed
  qed
qed

section \<open>The birthday window\<close>

lemma names_distinct:
  assumes "book_keys_ok book"
  shows "distinct (map name (book_values book))"
proof -
  from assms have d: "distinct (map fst book)" and k: "list_all (\<lambda>(k, r). name r = k) book"
    by (simp_all add: book_keys_ok_def)
  from k have "map name (book_values book) = map fst book"
    by (induction book) (auto simp: book_values_def)
  with d show ?thesis by simp
qed

lemma same_name_same_record:
  assumes "book_keys_ok book" "r \<in> set (book_values book)" "r' \<in> set (book_values book)"
    and "name r' = name r"
  shows "r' = r"
  using names_distinct [OF assms(1)] assms(2,3,4)
  by (meson distinct_map inj_on_def)

lemma get_upcoming_birthdays_Inr:
  assumes "get_upcoming_birthdays today book = Inr res"
  shows "res = entries_of today (book_values book)"
    and "r \<in> set (book_values book) \<Longrightarrow> \<exists>x. record_entry today r = Inr x"
proof -
  from upcoming_loop_Inr [OF assms [unfolded get_upcoming_birthdays_def]]
  have a: "list_all (\<lambda>r. \<exists>x. record_entry today r = Inr x) (book_values book)"
    and b: "res = entries_of today (book_values book)" by simp_all
  show "res = entries_of today (book_values book)" by (rule b)
  show "r \<in> set (book_values book) \<Longrightarrow> \<exists>x. record_entry today r = Inr x"
    using a by (simp add: list_all_iff)
qed

text \<open>
  Claim C1. Let \<open>get_upcoming_birthdays\<close> return a list, and let a record of the book
  have a birthday. Then the birthday with its year replaced by the current year is a
  date \<open>occ\<close>, and the list has an element for the record if and only if the number
  of days from today to \<open>occ\<close> is in the range 0 to 7; the test is on \<open>occ\<close> itself.
  The date the element shows is \<open>occ\<close>, unless \<open>occ\<close> is a Saturday or a Sunday: then it
  is the Monday that follows (two days or one day later), also when that Monday is
  beyond the seventh day. The record has no other element in the list.
\<close>

theorem upcoming_birthdays_window:
  assumes "get_upcoming_birthdays today book = Inr res"
    and "book_keys_ok book"
    and "r \<in> set (book_values book)"
    and "birthday r = Some b"
  shows "\<exists>occ. replace_year b (year today) = Inr occ \<and>
     (if 0 \<le> toordinal occ - toordinal today \<and> toordinal occ - toordinal today \<le> 7
      then \<exists>shown.
             valid_date shown \<and>
             (if 5 \<le> weekday occ
              then weekday shown = 0 \<and> toordinal shown = toordinal occ + (7 - weekday occ)
              else shown = occ) \<and>
             \<lparr>upcoming_name = name r, upcoming_birthday = strftime_dmy shown\<rparr> \<in> set res \<and>
             (\<forall>u \<in> set res. upcoming_name u = name r \<longrightarrow>
                u = \<lparr>upcoming_name = name r, upcoming_birthday = strftime_dmy shown\<rparr>)
      else \<forall>u \<in> set res. upcoming_name u \<noteq> name r)"
proof -
  note res = get_upcoming_birthdays_Inr(1) [OF assms(1)]
  from get_upcoming_birthdays_Inr(2) [OF assms(1,3)]
  obtain x where x: "record_entry today r = Inr x" ..
  have only: "record_entry today r = Inr (Some u)"
    if "u \<in> set res" "upcoming_name u = name r" for u
  proof -
    from that(1) obtain r' where r': "r' \<in> set (book_values book)"
      and e: "record_entry today r' = Inr (Some u)"
      unfolding res set_entries_of by blast
    from record_entry_Some [OF e] have "upcoming_name u = name r'" by auto
    with that(2) have "name r' = name r" by simp
    from same_name_same_record [OF assms(2,3) r' this] e show ?thesis by simp
  qed
  show ?thesis
  proof (cases x)
    case None
    from record_entry_None [OF x [unfolded None] assms(4)] obtain occ
      where occ: "replace_year b (year today) = Inr occ"
        and out: "\<not> (0 \<le> toordinal occ - toordinal today \<and> toordinal occ - toordinal today \<le> 7)"
      by blast
    have "\<forall>u \<in> set res. upcoming_name u \<noteq> name r"
      using only x None by fastforce
    with occ out show ?thesis by auto
  next
    case (Some u)
    from record_entry_Some [OF x [unfolded Some]] assms(4) obtain occ shown
      where occ: "replace_year b (year today) = Inr occ"
        and w: "0 \<le> toordinal occ - toordinal today" "toordinal occ - toordinal today \<le> 7"
        and u: "u = \<lparr>upcoming_name = name r, upcoming_birthday = strftime_dmy shown\<rparr>"
        and vs: "valid_date shown"
        and sh: "if 5 \<le> weekday occ
                 then weekday shown = 0 \<and> toordinal shown = toordinal occ + (7 - weekday occ)
                 else shown = occ"
      by auto
    have m: "u \<in> set res"
      unfolding res set_entries_of using assms(3) x Some by blast
    have uniq: "\<forall>u' \<in> set res. upcoming_name u' = name r \<longrightarrow> u' = u"
    proof (intro ballI impI)
      fix u' assume "u' \<in> set res" "upcoming_name u' = name r"
      from only [OF this] x Some show "u' = u" by simp
    qed
    have body: "valid_date shown \<and>
             (if 5 \<le> weekday occ
              then weekday shown = 0 \<and> toordinal shown = toordinal occ + (7 - weekday occ)
              else shown = occ) \<and>
             u \<in> set res \<and>
             (\<forall>u' \<in> set res. upcoming_name u' = name r \<longrightarrow> u' = u)"
      by (intro conjI) (rule vs, rule sh, rule m, rule uniq)
    have ex: "\<exists>shown.
             valid_date shown \<and>
             (if 5 \<le> weekday occ
              then weekday shown = 0 \<and> toordinal shown = toordinal occ + (7 - weekday occ)
              else shown = occ) \<and>
             \<lparr>upcoming_name = name r, upcoming_birthday = strftime_dmy shown\<rparr> \<in> set res \<and>
             (\<forall>u \<in> set res. upcoming_name u = name r \<longrightarrow>
                u = \<lparr>upcoming_name = name r, upcoming_birthday = strftime_dmy shown\<rparr>)"
      by (rule exI [of _ shown]) (rule body [unfolded u])
    have cond: "0 \<le> toordinal occ - toordinal today \<and> toordinal occ - toordinal today \<le> 7"
      using w by simp
    show ?thesis
      by (rule exI [of _ occ], rule conjI [OF occ], subst if_P [OF cond], rule ex)
  qed
qed

text \<open>
  Claim C10. A record whose birthday, with its year replaced by the current year, lies
  before today has no element in the list \<open>get_upcoming_birthdays\<close> returns, however
  close its next occurrence in the following year is.
\<close>

theorem upcoming_never_past:
  assumes "get_upcoming_birthdays today book = Inr res"
    and "book_keys_ok book"
    and "r \<in> set (book_values book)"
    and "birthday r = Some b"
    and "replace_year b (year today) = Inr occ"
    and "toordinal occ < toordinal today"
  shows "name r \<notin> upcoming_name ` set res"
proof
  assume "name r \<in> upcoming_name ` set res"
  then obtain u where u: "u \<in> set res" and n: "upcoming_name u = name r" by auto
  from u obtain r' where r': "r' \<in> set (book_values book)"
    and e: "record_entry today r' = Inr (Some u)"
    unfolding get_upcoming_birthdays_Inr(1) [OF assms(1)] set_entries_of by blast
  from record_entry_Some [OF e] have "upcoming_name u = name r'" by auto
  with n have "name r' = name r" by simp
  from same_name_same_record [OF assms(2,3) r' this] e
  have "record_entry today r = Inr (Some u)" by simp
  from record_entry_Some [OF this] assms(4,5) have "0 \<le> toordinal occ - toordinal today"
    by auto
  with assms(6) show False by simp
qed

lemma replace_year_feb29:
  assumes "valid_date today" "month b = 2" "day b = 29" "\<not> is_leap (year today)"
  shows "replace_year b (year today) = Inl (ValueError ''day is out of range for month'')"
  using assms
  by (simp add: replace_year_def mk_date_def valid_date_def days_in_month_def DAYS_IN_MONTH_def)

text \<open>
  Claim C4. When a record of the book has the birthday February 29 and the current year
  is not a leap year, replacing the year of that birthday raises the \<open>ValueError\<close> of
  the date constructor, and \<open>get_upcoming_birthdays\<close> raises it: no date is adjusted.
\<close>

theorem feb29_fails_date_construction:
  assumes "valid_date today"
    and "birthdays_valid (book_values book)"
    and "r \<in> set (book_values book)"
    and "birthday r = Some b"
    and "month b = 2" and "day b = 29"
    and "\<not> is_leap (year today)"
  shows "replace_year b (year today) = Inl (ValueError ''day is out of range for month'') \<and>
         get_upcoming_birthdays today book = Inl (ValueError ''day is out of range for month'')"
proof -
  have rp: "replace_year b (year today) = Inl (ValueError ''day is out of range for month'')"
    by (rule replace_year_feb29 [OF assms(1,5,6,7)])
  with assms(4) have "record_entry today r = Inl (ValueError ''day is out of range for month'')"
    by (simp add: record_entry_def)
  from upcoming_loop_fails [OF assms(3) this] obtain e
    where e: "upcoming_loop today (book_values book) [] = Inl e" ..
  from upcoming_loop_Inl [OF e] obtain r' where r': "r' \<in> set (book_values book)"
    and f: "record_entry today r' = Inl e" ..
  from assms(2) r' have "case birthday r' of None \<Rightarrow> True | Some b \<Rightarrow> valid_date b"
    by (simp add: birthdays_valid_def list_all_iff)
  from record_entry_Inl [OF f assms(1) this] e rp show ?thesis
    by (simp add: get_upcoming_birthdays_def)
qed

text \<open>
  February 29 in a year that is not a leap year is the only way the query can fail:
  without it, \<open>get_upcoming_birthdays\<close> returns a list.
\<close>

lemma dim_other_year:
  assumes "1 \<le> m" "m \<le> 12" "d \<le> days_in_month y m" "\<not> (m = 2 \<and> d = 29)"
  shows "d \<le> days_in_month y' m"
  using assms by (auto simp: days_in_month_def DAYS_IN_MONTH_def split: if_splits)

lemma replace_year_ok:
  assumes "valid_date today" "valid_date b" "\<not> (month b = 2 \<and> day b = 29 \<and> \<not> is_leap (year today))"
  shows "\<exists>occ. replace_year b (year today) = Inr occ"
proof -
  from assms(2) have m: "1 \<le> month b" "month b \<le> 12" and d: "1 \<le> day b"
    "day b \<le> days_in_month (year b) (month b)" by (simp_all add: valid_date_def)
  have "day b \<le> days_in_month (year today) (month b)"
  proof (cases "month b = 2 \<and> day b = 29")
    case True
    with assms(3) show ?thesis by (simp add: days_in_month_def)
  next
    case False
    from dim_other_year [OF m d(2) False] show ?thesis .
  qed
  with assms(1) m d(1) show ?thesis
    by (simp add: replace_year_def mk_date_def valid_date_def)
qed

lemma get_upcoming_birthdays_returns:
  assumes "valid_date today" "birthdays_valid (book_values book)"
    and "list_all (\<lambda>r. case birthday r of None \<Rightarrow> True
           | Some b \<Rightarrow> \<not> (month b = 2 \<and> day b = 29 \<and> \<not> is_leap (year today))) (book_values book)"
  shows "get_upcoming_birthdays today book = Inr (entries_of today (book_values book))"
proof -
  have "\<exists>x. record_entry today r = Inr x" if r: "r \<in> set (book_values book)" for r
  proof (cases "record_entry today r")
    case (Inr x)
    then show ?thesis by blast
  next
    case (Inl e)
    from assms(2) r have v: "case birthday r of None \<Rightarrow> True | Some b \<Rightarrow> valid_date b"
      by (simp add: birthdays_valid_def list_all_iff)
    from Inl obtain b where b: "birthday r = Some b"
      by (auto simp: record_entry_def split: option.splits)
    with v have vb: "valid_date b" by simp
    from assms(3) r b have "\<not> (month b = 2 \<and> day b = 29 \<and> \<not> is_leap (year today))"
      by (auto simp: list_all_iff)
    from replace_year_ok [OF assms(1) vb this] obtain occ
      where occ: "replace_year b (year today) = Inr occ" ..
    then have vo: "valid_date occ" by (auto simp: replace_year_def dest: mk_date_Inr)
    show ?thesis
    proof (cases "5 \<le> weekday occ")
      case True
      from shift_in_calendar [OF vo True] obtain shown
        where "date_add_days occ (7 - weekday occ) = Inr shown" ..
      with b occ True show ?thesis by (simp add: record_entry_def)
    next
      case False
      with b occ show ?thesis by (simp add: record_entry_def)
    qed
  qed
  then have "list_all (\<lambda>r. \<exists>x. record_entry today r = Inr x) (book_values book)"
    by (simp add: list_all_iff)
  from upcoming_loop_total [OF this, of "[]"] show ?thesis
    by (simp add: get_upcoming_birthdays_def)
qed

theorem upcoming_birthdays_window_witness:
  "get_upcoming_birthdays \<lparr>year = 2024, month = 1, day = 6\<rparr>
     [(''Ann'', \<lparr>name = ''Ann'', phones = [''1234567890''],
                birthday = Some \<lparr>year = 1990, month = 1, day = 13\<rparr>\<rparr>)]
     = Inr [\<lparr>upcoming_name = ''Ann'', upcoming_birthday = ''15.01.2024''\<rparr>] \<and>
   weekday \<lparr>year = 2024, month = 1, day = 13\<rparr> = 5 \<and>
   toordinal \<lparr>year = 2024, month = 1, day = 13\<rparr> - toordinal \<lparr>year = 2024, month = 1, day = 6\<rparr> = 7 \<and>
   (\<exists>shown. weekday shown = 0 \<and>
      toordinal shown = toordinal \<lparr>year = 2024, month = 1, day = 6\<rparr> + 9 \<and>
      \<lparr>upcoming_name = ''Ann'', upcoming_birthday = strftime_dmy shown\<rparr>
        \<in> set [\<lparr>upcoming_name = ''Ann'', upcoming_birthday = ''15.01.2024''\<rparr>])"
proof -
  let ?today = "\<lparr>year = 2024, month = 1, day = 6\<rparr>"
  let ?b = "\<lparr>year = 1990, month = 1, day = 13\<rparr>"
  let ?occ = "\<lparr>year = 2024, month = 1, day = 13\<rparr>"
  let ?r = "\<lparr>name = ''Ann'', phones = [''1234567890''], birthday = Some ?b\<rparr>"
  let ?book = "[(''Ann'', ?r)]"
  let ?res = "[\<lparr>upcoming_name = ''Ann'', upcoming_birthday = ''15.01.2024''\<rparr>]"
  have h1: "get_upcoming_birthdays ?today ?book = Inr ?res" by code_simp
  have h2: "book_keys_ok ?book" by code_simp
  have h3: "?r \<in> set (book_values ?book)" by (simp add: book_values_def)
  have h4: "birthday ?r = Some ?b" by simp
  have occ: "replace_year ?b (year ?today) = Inr ?occ" by code_simp
  have wd: "weekday ?occ = 5" by code_simp
  have df: "toordinal ?occ - toordinal ?today = 7" by code_simp
  from upcoming_birthdays_window [OF h1 h2 h3 h4] occ wd df
  have "\<exists>shown. weekday shown = 0 \<and> toordinal shown = toordinal ?occ + 2 \<and>
      \<lparr>upcoming_name = ''Ann'', upcoming_birthday = strftime_dmy shown\<rparr> \<in> set ?res"
    by auto
  moreover have "toordinal ?occ + 2 = toordinal ?today + 9" using df by simp
  ultimately have "\<exists>shown. weekday shown = 0 \<and> toordinal shown = toordinal ?today + 9 \<and>
      \<lparr>upcoming_name = ''Ann'', upcoming_birthday = strftime_dmy shown\<rparr> \<in> set ?res"
    by simp
  with h1 wd df show ?thesis by blast
qed

theorem upcoming_never_past_witness:
  "get_upcoming_birthdays \<lparr>year = 2024, month = 12, day = 29\<rparr>
     [(''Ann'', \<lparr>name = ''Ann'', phones = [],
                birthday = Some \<lparr>year = 1990, month = 1, day = 2\<rparr>\<rparr>),
      (''Bob'', \<lparr>name = ''Bob'', phones = [],
                birthday = Some \<lparr>year = 1985, month = 12, day = 31\<rparr>\<rparr>)]
     = Inr [\<lparr>upcoming_name = ''Bob'', upcoming_birthday = ''31.12.2024''\<rparr>] \<and>
   toordinal \<lparr>year = 2025, month = 1, day = 2\<rparr> - toordinal \<lparr>year = 2024, month = 12, day = 29\<rparr> = 4 \<and>
   toordinal \<lparr>year = 2024, month = 1, day = 2\<rparr> < toordinal \<lparr>year = 2024, month = 12, day = 29\<rparr> \<and>
   ''Ann'' \<notin> upcoming_name ` set [\<lparr>upcoming_name = ''Bob'', upcoming_birthday = ''31.12.2024''\<rparr>]"
proof -
  let ?today = "\<lparr>year = 2024, month = 12, day = 29\<rparr>"
  let ?b = "\<lparr>year = 1990, month = 1, day = 2\<rparr>"
  let ?occ = "\<lparr>year = 2024, month = 1, day = 2\<rparr>"
  let ?r = "\<lparr>name = ''Ann'', phones = [], birthday = Some ?b\<rparr>"
  let ?book = "[(''Ann'', ?r), (''Bob'', \<lparr>name = ''Bob'', phones = [],
                birthday = Some \<lparr>year = 1985, month = 12, day = 31\<rparr>\<rparr>)]"
  let ?res = "[\<lparr>upcoming_name = ''Bob'', upcoming_birthday = ''31.12.2024''\<rparr>]"
  have h1: "get_upcoming_birthdays ?today ?book = Inr ?res" by code_simp
  have h2: "book_keys_ok ?book" by code_simp
  have h3: "?r \<in> set (book_values ?book)" by (simp add: book_values_def)
  have h4: "birthday ?r = Some ?b" by simp
  have h5: "replace_year ?b (year ?today) = Inr ?occ" by code_simp
  have h6: "toordinal ?occ < toordinal ?today" by code_simp
  have nx: "toordinal \<lparr>year = 2025, month = 1, day = 2\<rparr> - toordinal ?today = 4" by code_simp
  from upcoming_never_past [OF h1 h2 h3 h4 h5 h6]
  have "''Ann'' \<notin> upcoming_name ` set ?res" by simp
  with h1 nx h6 show ?thesis by blast
qed

theorem feb29_fails_date_construction_witness:
  "valid_date \<lparr>year = 2023, month = 2, day = 25\<rparr> \<and>
   \<not> is_leap 2023 \<and>
   replace_year \<lparr>year = 1992, month = 2, day = 29\<rparr> 2023
     = Inl (ValueError ''day is out of range for month'') \<and>
   get_upcoming_birthdays \<lparr>year = 2023, month = 2, day = 25\<rparr>
     [(''Ann'', \<lparr>name = ''Ann'', phones = [],
                birthday = Some \<lparr>year = 1990, month = 2, day = 27\<rparr>\<rparr>),
      (''Bob'', \<lparr>name = ''Bob'', phones = [],
                birthday = Some \<lparr>year = 1992, month = 2, day = 29\<rparr>\<rparr>)]
     = Inl (ValueError ''day is out of range for month'')"
proof -
  let ?today = "\<lparr>year = 2023, month = 2, day = 25\<rparr>"
  let ?b = "\<lparr>year = 1992, month = 2, day = 29\<rparr>"
  let ?r = "\<lparr>name = ''Bob'', phones = [], birthday = Some ?b\<rparr>"
  let ?book = "[(''Ann'', \<lparr>name = ''Ann'', phones = [],
                birthday = Some \<lparr>year = 1990, month = 2, day = 27\<rparr>\<rparr>), (''Bob'', ?r)]"
  have h1: "valid_date ?today" by code_simp
  have h2: "birthdays_valid (book_values ?book)" by code_simp
  have h3: "?r \<in> set (book_values ?book)" by (simp add: book_values_def)
  have h4: "birthday ?r = Some ?b" by simp
  have h5: "month ?b = 2" and h6: "day ?b = 29" by simp_all
  have h7: "\<not> is_leap (year ?today)" by code_simp
  from feb29_fails_date_construction [OF h1 h2 h3 h4 h5 h6 h7] h1 h7 show ?thesis by simp
qed

section \<open>Records and the book\<close>

lemma find_phone_None: "find_phone r p = None \<longleftrightarrow> p \<notin> set (phones r)"
  by (auto simp: find_phone_def find_None_iff)

lemma find_phone_Some: "find_phone r p = Some ph \<Longrightarrow> ph = p \<and> p \<in> set (phones r)"
  by (auto simp: find_phone_def find_Some_iff)

lemma remove_phone_eq:
  "remove_phone r p =
     (if p \<in> set (phones r) then Inr (r\<lparr>phones := remove1 p (phones r)\<rparr>)
      else Inl (ValueError ''Phone number is not found''))"
proof (cases "find_phone r p")
  case None
  then have "p \<notin> set (phones r)" by (simp add: find_phone_None)
  with None show ?thesis by (simp add: remove_phone_def)
next
  case (Some ph)
  from find_phone_Some [OF Some] Some show ?thesis by (simp add: remove_phone_def)
qed

text \<open>
  Claim C5, as the code has it. \<open>Name(value)\<close> raises the \<open>ValueError\<close> with the message
  "Name must contain only letters" if and only if the value is empty or one of its
  characters is not alphabetic; otherwise the field holds the value. \<open>str.isalpha\<close> is
  false of the empty string, so the empty name is refused.
\<close>

theorem Name_fails_iff:
  "Name v = (if v = [] \<or> \<not> list_all char_isalpha v
             then Inl (ValueError ''Name must contain only letters'') else Inr v)"
  by (simp add: Name_def str_isalpha_def)

text \<open>
  Every character of the empty string is alphabetic, and \<open>Name("")\<close> raises all the
  same.
\<close>

theorem Name_empty_counterexample:
  "list_all char_isalpha '''' \<and> Name '''' = Inl (ValueError ''Name must contain only letters'')"
  by (simp add: Name_def str_isalpha_def)

theorem Name_fails_iff_witness:
  "Name ''John'' = Inr ''John'' \<and>
   Name ''J0hn'' = Inl (ValueError ''Name must contain only letters'') \<and>
   Name '''' = Inl (ValueError ''Name must contain only letters'')"
proof -
  have a: "list_all char_isalpha ''John''" by code_simp
  have b: "\<not> list_all char_isalpha ''J0hn''" by code_simp
  show ?thesis
    using Name_fails_iff [of "''John''"] Name_fails_iff [of "''J0hn''"] Name_fails_iff [of "''''"] a b
    by simp
qed

text \<open>
  Claim C6. \<open>edit_phone(old, new)\<close> raises "Phone number is not found" and leaves the
  record as it is when no phone of the record equals \<open>old\<close>. Otherwise it removes the
  first phone equal to \<open>old\<close> and validates \<open>new\<close>: a valid \<open>new\<close> is appended at
  the end of the phones, so the edited phone changes its place.
\<close>

theorem edit_phone_remove_append:
  "edit_phone r old new =
     (if old \<notin> set (phones r) then (Some (ValueError ''Phone number is not found''), r)
      else if str_isdigit new \<and> length new = 10
        then (None, r\<lparr>phones := remove1 old (phones r) @ [new]\<rparr>)
      else (Some (ValueError ''Phone number must contain 10 digits''),
            r\<lparr>phones := remove1 old (phones r)\<rparr>))"
proof (cases "find_phone r old")
  case None
  then have "old \<notin> set (phones r)" by (simp add: find_phone_None)
  with None show ?thesis by (simp add: edit_phone_def)
next
  case (Some ph)
  from find_phone_Some [OF Some] have m: "old \<in> set (phones r)" by simp
  with Some show ?thesis
    by (simp add: edit_phone_def remove_phone_eq add_phone_def Phone_def)
qed

theorem edit_phone_remove_append_witness:
  "edit_phone \<lparr>name = ''John'', phones = [''1234567890''], birthday = None\<rparr>
     ''1234567890'' ''0987654321''
     = (None, \<lparr>name = ''John'', phones = [''0987654321''], birthday = None\<rparr>) \<and>
   ''0987654321'' \<in> set [''0987654321''] \<and> ''1234567890'' \<notin> set [''0987654321''] \<and>
   edit_phone \<lparr>name = ''John'', phones = [''1234567890''], birthday = None\<rparr>
     ''5555555555'' ''0987654321''
     = (Some (ValueError ''Phone number is not found''),
        \<lparr>name = ''John'', phones = [''1234567890''], birthday = None\<rparr>) \<and>
   edit_phone \<lparr>name = ''John'', phones = [''1111111111'', ''1234567890'', ''2222222222''],
                birthday = None\<rparr> ''1111111111'' ''0987654321''
     = (None, \<lparr>name = ''John'', phones = [''1234567890'', ''2222222222'', ''0987654321''],
                birthday = None\<rparr>)"
proof -
  have d: "str_isdigit ''0987654321''" by code_simp
  let ?r = "\<lparr>name = ''John'', phones = [''1234567890''], birthday = None\<rparr>"
  let ?r3 = "\<lparr>name = ''John'', phones = [''1111111111'', ''1234567890'', ''2222222222''],
                birthday = None\<rparr>"
  show ?thesis
    using edit_phone_remove_append [of ?r "''1234567890''" "''0987654321''"]
      edit_phone_remove_append [of ?r "''5555555555''" "''0987654321''"]
      edit_phone_remove_append [of ?r3 "''1111111111''" "''0987654321''"] d
    by simp
qed

text \<open>
  Claim C9, as the code has it. When the record has the phone \<open>old\<close> and \<open>Phone\<close>
  refuses \<open>new\<close> (\<open>new.isdigit()\<close> is false or the length of \<open>new\<close> is not 10),
  \<open>edit_phone(old, new)\<close> raises the \<open>ValueError\<close> of \<open>Phone\<close> after it has removed
  \<open>old\<close>: the record is left with one phone fewer and nothing added.
\<close>

theorem edit_phone_not_atomic:
  assumes "old \<in> set (phones r)" and "\<not> str_isdigit new \<or> length new \<noteq> 10"
  shows "edit_phone r old new =
           (Some (ValueError ''Phone number must contain 10 digits''),
            r\<lparr>phones := remove1 old (phones r)\<rparr>) \<and>
         remove1 old (phones r) \<noteq> phones r \<and>
         length (remove1 old (phones r)) + 1 = length (phones r) \<and>
         set (remove1 old (phones r)) \<subseteq> set (phones r)"
proof -
  from assms(1) obtain ph where "find_phone r old = Some ph"
    by (cases "find_phone r old") (auto simp: find_phone_None)
  with assms have e: "edit_phone r old new =
           (Some (ValueError ''Phone number must contain 10 digits''),
            r\<lparr>phones := remove1 old (phones r)\<rparr>)"
    by (auto simp: edit_phone_def remove_phone_eq add_phone_def Phone_def)
  have l: "length (remove1 old (phones r)) + 1 = length (phones r)"
    using assms(1) by (simp add: length_remove1) (cases "phones r"; simp)
  then have n: "remove1 old (phones r) \<noteq> phones r" by auto
  from e l n show ?thesis by (simp add: set_remove1_subset)
qed

text \<open>
  Ten superscript twos are not decimal digits, but \<open>str.isdigit\<close> holds of them: \<open>Phone\<close>
  accepts the string and \<open>edit_phone\<close> returns without an exception.
\<close>

theorem edit_phone_superscript_counterexample:
  "\<not> list_all char_isdecimal [CHR 0xB2, CHR 0xB2, CHR 0xB2, CHR 0xB2, CHR 0xB2,
                               CHR 0xB2, CHR 0xB2, CHR 0xB2, CHR 0xB2, CHR 0xB2] \<and>
   edit_phone \<lparr>name = ''John'', phones = [''1234567890''], birthday = None\<rparr> ''1234567890''
     [CHR 0xB2, CHR 0xB2, CHR 0xB2, CHR 0xB2, CHR 0xB2,
      CHR 0xB2, CHR 0xB2, CHR 0xB2, CHR 0xB2, CHR 0xB2]
   = (None, \<lparr>name = ''John'',
             phones = [[CHR 0xB2, CHR 0xB2, CHR 0xB2, CHR 0xB2, CHR 0xB2,
                        CHR 0xB2, CHR 0xB2, CHR 0xB2, CHR 0xB2, CHR 0xB2]],
             birthday = None\<rparr>)"
  by code_simp

theorem edit_phone_not_atomic_witness:
  "''1234567890'' \<in> set [''1234567890'', ''5555555555''] \<and>
   length ''12345'' \<noteq> 10 \<and>
   edit_phone \<lparr>name = ''John'', phones = [''1234567890'', ''5555555555''], birthday = None\<rparr>
     ''1234567890'' ''12345''
   = (Some (ValueError ''Phone number must contain 10 digits''),
      \<lparr>name = ''John'', phones = [''5555555555''], birthday = None\<rparr>)"
proof -
  let ?r = "\<lparr>name = ''John'', phones = [''1234567890'', ''5555555555''], birthday = None\<rparr>"
  have h1: "''1234567890'' \<in> set (phones ?r)" by simp
  have h2: "\<not> str_isdigit ''12345'' \<or> length ''12345'' \<noteq> 10" by simp
  from edit_phone_not_atomic [OF h1 h2] show ?thesis by simp
qed

text \<open>
  Claim C7. After \<open>add_record(r)\<close> the book has \<open>r\<close> under the name of \<open>r\<close> and every
  other name has the record it had; the keys keep their order and a new name is added
  at the end. Adding a second record of the same name leaves the book as if only the
  second had been added: the stored record is replaced, nothing of the first remains.
\<close>

theorem add_record_upsert:
  "find_record (add_record book r) nm = (if nm = name r then Some r else find_record book nm) \<and>
   map fst (add_record book r) =
     (if name r \<in> set (map fst book) then map fst book else map fst book @ [name r]) \<and>
   (name r1 = name r2 \<longrightarrow> add_record (add_record book r1) r2 = add_record book r2)"
  by (simp add: find_record_def add_record_def AList.update_conv' AList.update_keys
      AList.update_last)

theorem add_record_upsert_witness:
  "add_record (add_record [] \<lparr>name = ''John'', phones = [''1234567890''], birthday = None\<rparr>)
     \<lparr>name = ''John'', phones = [''0987654321''], birthday = None\<rparr>
   = [(''John'', \<lparr>name = ''John'', phones = [''0987654321''], birthday = None\<rparr>)] \<and>
   find_record
     (add_record (add_record [] \<lparr>name = ''John'', phones = [''1234567890''], birthday = None\<rparr>)
        \<lparr>name = ''John'', phones = [''0987654321''], birthday = None\<rparr>) ''John''
   = Some \<lparr>name = ''John'', phones = [''0987654321''], birthday = None\<rparr>"
proof -
  let ?r1 = "\<lparr>name = ''John'', phones = [''1234567890''], birthday = None\<rparr>"
  let ?r2 = "\<lparr>name = ''John'', phones = [''0987654321''], birthday = None\<rparr>"
  have u: "add_record [] ?r2 = [(''John'', ?r2)]" by (simp add: add_record_def)
  from add_record_upsert [of "add_record [] ?r1" ?r2 "''John''" ?r1 ?r2]
       add_record_upsert [of "[]" ?r1 "''John''" ?r1 ?r2] u
  show ?thesis by simp
qed

text \<open>
  Claim C3. Saving a book to a file that may be written succeeds, and loading from the
  file afterwards returns the book that was saved: the same names with the same records.
\<close>

theorem save_then_load:
  assumes "fs filename \<noteq> Some Denied"
  shows "\<exists>fs'. save_data book filename fs = Inr fs' \<and> load_data filename fs' = Inr book"
proof -
  have s: "save_data book filename fs = Inr (fs(filename \<mapsto> Pickled book))"
  proof (cases "fs filename")
    case None
    then show ?thesis by (simp add: save_data_def)
  next
    case (Some f)
    with assms show ?thesis by (cases f) (simp_all add: save_data_def)
  qed
  have l: "load_data filename (fs(filename \<mapsto> Pickled book)) = Inr book"
    by (simp add: load_data_def open_rb_def pickle_load_def)
  from s l show ?thesis by blast
qed

theorem save_then_load_witness:
  "no_files FILENAME \<noteq> Some Denied \<and>
   (\<exists>fs'. save_data [(''John'', \<lparr>name = ''John'', phones = [''1234567890''],
              birthday = Some \<lparr>year = 1990, month = 1, day = 3\<rparr>\<rparr>)] FILENAME no_files = Inr fs' \<and>
      load_data FILENAME fs' = Inr [(''John'', \<lparr>name = ''John'', phones = [''1234567890''],
              birthday = Some \<lparr>year = 1990, month = 1, day = 3\<rparr>\<rparr>)])"
proof -
  have h: "no_files FILENAME \<noteq> Some Denied" by (simp add: no_files_def)
  from save_then_load [of no_files FILENAME, OF h] h show ?thesis by blast
qed

text \<open>
  Claim C8, as the code has it. \<open>load_data\<close> returns the saved book when the file holds
  one, and an empty book when there is no file. A file that cannot be opened or whose
  content is not a pickle makes \<open>load_data\<close> raise: only \<open>FileNotFoundError\<close> is handled.
\<close>

theorem load_data_cases:
  "load_data filename fs =
     (case fs filename of
        None \<Rightarrow> Inr []
      | Some (Pickled book) \<Rightarrow> Inr book
      | Some Garbage \<Rightarrow> Inl UnpicklingError
      | Some Denied \<Rightarrow> Inl PermissionError)"
proof (cases "fs filename")
  case None
  then show ?thesis by (simp add: load_data_def open_rb_def)
next
  case (Some f)
  then show ?thesis by (cases f) (simp_all add: load_data_def open_rb_def pickle_load_def)
qed

text \<open>
  A corrupt file and a file without read permission: the exception escapes.
\<close>

theorem load_data_corrupt_counterexample:
  "load_data FILENAME (no_files(FILENAME \<mapsto> Garbage)) = Inl UnpicklingError \<and>
   load_data FILENAME (no_files(FILENAME \<mapsto> Denied)) = Inl PermissionError"
  by (simp add: load_data_def open_rb_def pickle_load_def)

theorem load_data_cases_witness:
  "load_data FILENAME no_files = Inr [] \<and>
   load_data FILENAME (no_files(FILENAME \<mapsto> Pickled [(''John'',
       \<lparr>name = ''John'', phones = [], birthday = None\<rparr>)]))
     = Inr [(''John'', \<lparr>name = ''John'', phones = [], birthday = None\<rparr>)]"
  using load_data_cases [of FILENAME no_files]
    load_data_cases [of FILENAME "no_files(FILENAME \<mapsto> Pickled [(''John'',
       \<lparr>name = ''John'', phones = [], birthday = None\<rparr>)])"]
  by (simp add: no_files_def)

section \<open>The command handlers and the loop\<close>

text \<open>
  Every decorated handler returns a line, whatever its arguments: the exceptions of the
  fields, of the unpacking of the arguments and of the birthday query are the ones
  \<open>input_error\<close> handles.
\<close>

lemma input_error_simps:
  "input_error (Inr msg) = Inr msg"
  "input_error (Inl (ValueError ve)) = Inr ve"
  "input_error (Inl (KeyError k)) = Inr ''Contact is not found''"
  "input_error (Inl (IndexError ie)) = Inr ''Enter user name and phone/birthday''"
  by (simp_all add: input_error_def)

lemma Record_init_cases:
  "Record_init nm = Inl (ValueError ''Name must contain only letters'') \<or>
   Record_init nm = Inr \<lparr>name = nm, phones = [], birthday = None\<rparr>"
  by (simp add: Record_init_def Name_def)

lemma add_phone_cases:
  "add_phone r p = Inl (ValueError ''Phone number must contain 10 digits'') \<or>
   add_phone r p = Inr (r\<lparr>phones := phones r @ [p]\<rparr>)"
  by (simp add: add_phone_def Phone_def)

lemma add_birthday_cases:
  "add_birthday r b = Inl (ValueError ''Invalid date format. Use DD.MM.YYYY'') \<or>
   (\<exists>dt. valid_date dt \<and> add_birthday r b = Inr (r\<lparr>birthday := Some dt\<rparr>))"
proof (cases "strptime_dmy b")
  case (Inl e)
  then show ?thesis by (simp add: add_birthday_def Birthday_def)
next
  case (Inr dt)
  then have "valid_date dt"
    by (auto simp: strptime_dmy_def dest: mk_date_Inr split: list.splits option.splits)
  moreover from Inr have "add_birthday r b = Inr (r\<lparr>birthday := Some dt\<rparr>)"
    by (simp add: add_birthday_def Birthday_def)
  ultimately show ?thesis by blast
qed

lemma edit_phone_result:
  "edit_phone r old new = (Some (ValueError ''Phone number is not found''), r) \<or>
   edit_phone r old new = (None, r\<lparr>phones := remove1 old (phones r) @ [new]\<rparr>) \<or>
   edit_phone r old new = (Some (ValueError ''Phone number must contain 10 digits''),
                           r\<lparr>phones := remove1 old (phones r)\<rparr>)"
proof (cases "find_phone r old")
  case None
  then show ?thesis by (simp add: edit_phone_def)
next
  case (Some ph)
  from find_phone_Some [OF Some] have m: "old \<in> set (phones r)" by simp
  show ?thesis
  proof (cases "str_isdigit new \<and> length new = 10")
    case True
    with Some m show ?thesis
      by (simp add: edit_phone_def remove_phone_eq add_phone_def Phone_def)
  next
    case False
    with Some m show ?thesis
      by (auto simp: edit_phone_def remove_phone_eq add_phone_def Phone_def)
  qed
qed

lemma get_upcoming_birthdays_Inl:
  assumes "get_upcoming_birthdays today book = Inl e" "valid_date today"
    and "birthdays_valid (book_values book)"
  shows "e = ValueError ''day is out of range for month''"
proof -
  from upcoming_loop_Inl [OF assms(1) [unfolded get_upcoming_birthdays_def]]
  obtain r where r: "r \<in> set (book_values book)" and f: "record_entry today r = Inl e" ..
  from assms(3) r have "case birthday r of None \<Rightarrow> True | Some b \<Rightarrow> valid_date b"
    by (simp add: birthdays_valid_def list_all_iff)
  from record_entry_Inl [OF f assms(2) this] show ?thesis .
qed

lemma add_contact_returns: "\<exists>msg. fst (add_contact args book) = Inr msg"
proof (cases args)
  case Nil
  then show ?thesis by (simp add: add_contact_def unpack_error_def input_error_simps)
next
  case (Cons nm as)
  note a = Cons
  show ?thesis
  proof (cases as)
    case Nil
    with a show ?thesis by (simp add: add_contact_def unpack_error_def input_error_simps)
  next
    case (Cons phone rest)
    show ?thesis
    proof (cases "find_record book nm")
      case None
      from Record_init_cases [of nm] show ?thesis
      proof
        assume "Record_init nm = Inl (ValueError ''Name must contain only letters'')"
        with None a Cons show ?thesis
          by (simp add: add_contact_def input_error_simps)
      next
        assume ri: "Record_init nm = Inr \<lparr>name = nm, phones = [], birthday = None\<rparr>"
        from add_phone_cases [of "\<lparr>name = nm, phones = [], birthday = None\<rparr>" phone]
        show ?thesis
          using ri None a Cons
          by (auto simp: add_contact_def input_error_simps Let_def)
      qed
    next
      case (Some r)
      from add_phone_cases [of r phone] show ?thesis
        using Some a Cons
        by (auto simp: add_contact_def input_error_simps)
    qed
  qed
qed

lemma change_contact_returns: "\<exists>msg. fst (change_contact args book) = Inr msg"
proof (cases "\<exists>nm old_phone new_phone rest. args = nm # old_phone # new_phone # rest")
  case False
  then have "change_contact args book = (input_error (Inl (unpack_error 3 (length args))), book)"
    by (auto simp: change_contact_def split: list.splits)
  then show ?thesis by (simp add: unpack_error_def input_error_simps)
next
  case True
  then obtain nm old_phone new_phone rest where a: "args = nm # old_phone # new_phone # rest"
    by blast
  show ?thesis
  proof (cases "find_record book nm")
    case None
    with a show ?thesis by (simp add: change_contact_def input_error_simps)
  next
    case (Some r)
    obtain x r' where e: "edit_phone r old_phone new_phone = (x, r')"
      by (cases "edit_phone r old_phone new_phone")
    from edit_phone_result [of r old_phone new_phone] e
    have "x = None \<or> (\<exists>m. x = Some (ValueError m))" by auto
    with a Some e show ?thesis
      by (auto simp: change_contact_def input_error_simps)
  qed
qed

lemma phone_contact_returns: "\<exists>msg. fst (phone_contact args book) = Inr msg"
  by (cases args; cases "find_record book (hd args)")
     (simp_all add: phone_contact_def input_error_simps)

lemma show_all_contacts_returns: "\<exists>msg. fst (show_all_contacts book) = Inr msg"
  by (simp add: show_all_contacts_def input_error_simps)

lemma add_birthday_cmd_returns: "\<exists>msg. fst (add_birthday_cmd args book) = Inr msg"
proof (cases "\<exists>nm bday rest. args = nm # bday # rest")
  case False
  then have "add_birthday_cmd args book = (input_error (Inl (unpack_error 2 (length args))), book)"
    by (auto simp: add_birthday_cmd_def split: list.splits)
  then show ?thesis by (simp add: unpack_error_def input_error_simps)
next
  case True
  then obtain nm bday rest where a: "args = nm # bday # rest" by blast
  show ?thesis
  proof (cases "find_record book nm")
    case None
    with a show ?thesis by (simp add: add_birthday_cmd_def input_error_simps)
  next
    case (Some r)
    from add_birthday_cases [of r bday] a Some show ?thesis
      by (auto simp: add_birthday_cmd_def input_error_simps)
  qed
qed

lemma show_birthday_returns: "\<exists>msg. fst (show_birthday args book) = Inr msg"
  by (cases args; cases "find_record book (hd args)")
     (simp_all add: show_birthday_def input_error_simps)

lemma birthdays_returns:
  assumes "valid_date today" "birthdays_valid (book_values book)"
  shows "\<exists>msg. fst (birthdays today args book) = Inr msg"
proof (cases "get_upcoming_birthdays today book")
  case (Inl e)
  from get_upcoming_birthdays_Inl [OF Inl assms] Inl show ?thesis
    by (simp add: birthdays_def input_error_simps)
next
  case (Inr up)
  then show ?thesis by (simp add: birthdays_def input_error_simps)
qed

lemma handled_returns:
  "\<exists>msg. fst res = Inr msg \<Longrightarrow> \<exists>out. handled fs res = Inr out"
  by (cases res) (auto simp: handled_def)

lemma handled_not_Inl:
  "\<exists>msg. fst res = Inr msg \<Longrightarrow> handled fs res \<noteq> Inl e"
  by (cases res) (auto simp: handled_def)

text \<open>
  A turn of the loop on a line with at least one word returns, unless the save at
  \<open>close\<close> or \<open>exit\<close> fails; the only exceptions that leave a turn are the one of the
  line without a word and the one of the save.
\<close>

lemma save_data_cases:
  "save_data book filename fs =
     (if fs filename = Some Denied then Inl PermissionError
      else Inr (fs(filename \<mapsto> Pickled book)))"
proof (cases "fs filename")
  case None
  then show ?thesis by (simp add: save_data_def)
next
  case (Some f)
  then show ?thesis by (cases f) (simp_all add: save_data_def)
qed

lemma main_step_returns:
  assumes "str_split user_input \<noteq> []" "valid_date today" "birthdays_valid (book_values book)"
    and "fs FILENAME \<noteq> Some Denied"
  shows "\<exists>out. main_step today fs book user_input = Inr out"
proof -
  from assms(1) obtain cmd args where s: "str_split user_input = cmd # args"
    by (cases "str_split user_input") auto
  then have p: "parse_input user_input = Inr (str_lower (str_strip cmd), args)"
    by (simp add: parse_input_def)
  have sv: "save_data book FILENAME fs = Inr (fs(FILENAME \<mapsto> Pickled book))"
    using assms(4) by (simp add: save_data_cases)
  note h = handled_returns [OF add_contact_returns] handled_returns [OF change_contact_returns]
    handled_returns [OF phone_contact_returns] handled_returns [OF show_all_contacts_returns]
    handled_returns [OF add_birthday_cmd_returns] handled_returns [OF show_birthday_returns]
    handled_returns [OF birthdays_returns [OF assms(2,3)]]
  show ?thesis
    unfolding main_step_def p sv using h by auto
qed

lemma main_step_raises:
  assumes "main_step today fs book user_input = Inl e" "valid_date today"
    "birthdays_valid (book_values book)"
  shows "(str_split user_input = [] \<and> e = unpack_error 1 0) \<or>
         (fs FILENAME = Some Denied \<and> e = PermissionError)"
proof (cases "str_split user_input = []")
  case True
  with assms(1) show ?thesis by (simp add: main_step_def parse_input_def)
next
  case False
  show ?thesis
  proof (cases "fs FILENAME = Some Denied")
    case d: False
    from main_step_returns [of user_input today book fs, OF False assms(2,3) d] assms(1)
    show ?thesis by auto
  next
    case True
    from False obtain cmd args where s: "str_split user_input = cmd # args"
      by (cases "str_split user_input") auto
    then have p: "parse_input user_input = Inr (str_lower (str_strip cmd), args)"
      by (simp add: parse_input_def)
    have sv: "save_data book FILENAME fs = Inl PermissionError"
      using True by (simp add: save_data_cases)
    note h = handled_not_Inl [OF add_contact_returns] handled_not_Inl [OF change_contact_returns]
      handled_not_Inl [OF phone_contact_returns] handled_not_Inl [OF show_all_contacts_returns]
      handled_not_Inl [OF add_birthday_cmd_returns] handled_not_Inl [OF show_birthday_returns]
      handled_not_Inl [OF birthdays_returns [OF assms(2,3)]]
    have "e = PermissionError"
      using assms(1) unfolding main_step_def p sv
      by (simp add: h split: if_splits)
    with True show ?thesis by simp
  qed
qed


text \<open>
  The commands keep the invariants of the book: every record stays under its own name,
  the names stay distinct and every birthday is a valid date.
\<close>

lemma book_ok_iff: "book_ok book \<longleftrightarrow> distinct (map fst book) \<and> (\<forall>(k, r) \<in> set book. record_ok k r)"
  by (auto simp: book_ok_def book_keys_ok_def birthdays_valid_def book_values_def record_ok_def
      list_all_iff)

lemma set_update_subset: "set (AList.update k v al) \<subseteq> insert (k, v) (set al)"
  by (induction al) auto

lemma book_ok_update:
  assumes "book_ok book" "record_ok k r"
  shows "book_ok (AList.update k r book)"
  unfolding book_ok_iff
proof
  from assms(1) show "distinct (map fst (AList.update k r book))"
    by (simp add: book_ok_iff AList.distinct_update)
  from assms set_update_subset [of k r book]
  show "\<forall>(k, r) \<in> set (AList.update k r book). record_ok k r"
    by (auto simp: book_ok_iff)
qed

lemma book_ok_find:
  assumes "book_ok book" "find_record book nm = Some r"
  shows "record_ok nm r"
proof -
  from assms(2) have "(nm, r) \<in> set book" by (auto simp: find_record_def dest: map_of_SomeD)
  with assms(1) show ?thesis by (auto simp: book_ok_iff)
qed

lemma book_ok_empty: "book_ok []"
  by (simp add: book_ok_iff)

lemma add_contact_book_ok:
  assumes "book_ok book"
  shows "book_ok (snd (add_contact args book))"
proof (cases "\<exists>nm phone rest. args = nm # phone # rest")
  case False
  then have "add_contact args book = (input_error (Inl (unpack_error 2 (length args))), book)"
    by (auto simp: add_contact_def split: list.splits)
  with assms show ?thesis by simp
next
  case True
  then obtain nm phone rest where a: "args = nm # phone # rest" by blast
  show ?thesis
  proof (cases "find_record book nm")
    case None
    from Record_init_cases [of nm] show ?thesis
    proof
      assume "Record_init nm = Inl (ValueError ''Name must contain only letters'')"
      with None a assms show ?thesis by (simp add: add_contact_def)
    next
      let ?r = "\<lparr>name = nm, phones = [], birthday = None\<rparr>"
      assume ri: "Record_init nm = Inr ?r"
      have ok1: "book_ok (add_record book ?r)"
        unfolding add_record_def using assms by (simp add: book_ok_update record_ok_def)
      have ok2: "book_ok (AList.update nm (?r\<lparr>phones := phones ?r @ [phone]\<rparr>) (add_record book ?r))"
        using ok1 by (rule book_ok_update) (simp add: record_ok_def)
      from add_phone_cases [of ?r phone] show ?thesis
        using ri None a ok1 ok2 by (auto simp: add_contact_def Let_def)
    qed
  next
    case (Some r)
    from book_ok_find [OF assms Some] have "record_ok nm (r\<lparr>phones := phones r @ [phone]\<rparr>)"
      by (simp add: record_ok_def)
    from book_ok_update [OF assms this] add_phone_cases [of r phone] show ?thesis
      using Some a assms by (auto simp: add_contact_def)
  qed
qed

lemma change_contact_book_ok:
  assumes "book_ok book"
  shows "book_ok (snd (change_contact args book))"
proof (cases "\<exists>nm old_phone new_phone rest. args = nm # old_phone # new_phone # rest")
  case False
  then have "change_contact args book = (input_error (Inl (unpack_error 3 (length args))), book)"
    by (auto simp: change_contact_def split: list.splits)
  with assms show ?thesis by simp
next
  case True
  then obtain nm old_phone new_phone rest where a: "args = nm # old_phone # new_phone # rest"
    by blast
  show ?thesis
  proof (cases "find_record book nm")
    case None
    with a assms show ?thesis by (simp add: change_contact_def)
  next
    case (Some r)
    obtain x r' where e: "edit_phone r old_phone new_phone = (x, r')"
      by (cases "edit_phone r old_phone new_phone")
    from edit_phone_result [of r old_phone new_phone] e
    have "name r' = name r \<and> birthday r' = birthday r" by auto
    with book_ok_find [OF assms Some] have "record_ok nm r'" by (simp add: record_ok_def)
    from book_ok_update [OF assms this] have "book_ok (AList.update nm r' book)" .
    with a Some e show ?thesis
      by (cases x) (simp_all add: change_contact_def)
  qed
qed

lemma add_birthday_cmd_book_ok:
  assumes "book_ok book"
  shows "book_ok (snd (add_birthday_cmd args book))"
proof (cases "\<exists>nm bday rest. args = nm # bday # rest")
  case False
  then have "add_birthday_cmd args book = (input_error (Inl (unpack_error 2 (length args))), book)"
    by (auto simp: add_birthday_cmd_def split: list.splits)
  with assms show ?thesis by simp
next
  case True
  then obtain nm bday rest where a: "args = nm # bday # rest" by blast
  show ?thesis
  proof (cases "find_record book nm")
    case None
    with a assms show ?thesis by (simp add: add_birthday_cmd_def)
  next
    case (Some r)
    from add_birthday_cases [of r bday] show ?thesis
    proof
      assume "add_birthday r bday = Inl (ValueError ''Invalid date format. Use DD.MM.YYYY'')"
      with a Some assms show ?thesis by (simp add: add_birthday_cmd_def)
    next
      assume "\<exists>dt. valid_date dt \<and> add_birthday r bday = Inr (r\<lparr>birthday := Some dt\<rparr>)"
      then obtain dt where v: "valid_date dt"
        and ab: "add_birthday r bday = Inr (r\<lparr>birthday := Some dt\<rparr>)" by blast
      from book_ok_find [OF assms Some] v have "record_ok nm (r\<lparr>birthday := Some dt\<rparr>)"
        by (simp add: record_ok_def)
      from book_ok_update [OF assms this] a Some ab show ?thesis
        by (simp add: add_birthday_cmd_def)
    qed
  qed
qed

lemma other_handlers_book:
  "snd (phone_contact args book) = book"
  "snd (show_all_contacts book) = book"
  "snd (show_birthday args book) = book"
  "snd (birthdays today args book) = book"
  by (simp_all add: phone_contact_def show_all_contacts_def show_birthday_def birthdays_def
      split: list.splits option.splits sum.splits)

lemma handled_Inr:
  "handled fs res = Inr (msg, book', fs', continue) \<Longrightarrow>
     book' = snd res \<and> fs' = fs \<and> continue"
  by (cases res) (auto simp: handled_def split: sum.splits)

lemma main_step_book_ok:
  assumes "main_step today fs book user_input = Inr (msg, book', fs', continue)" "book_ok book"
  shows "book_ok book'"
proof -
  from assms(1) obtain command args where p: "parse_input user_input = Inr (command, args)"
    by (cases "parse_input user_input") (auto simp: main_step_def)
  note ok = add_contact_book_ok [OF assms(2)] change_contact_book_ok [OF assms(2)]
    add_birthday_cmd_book_ok [OF assms(2)]
  from assms(1) show ?thesis
    unfolding main_step_def p
    using assms(2) ok
    by (auto split: if_splits sum.splits dest!: handled_Inr simp: other_handlers_book)
qed

text \<open>
  So a session that starts from a book with the invariants ends with an exception only
  at the end of the input, at a line without a word, or when the book cannot be saved.
\<close>

lemma main_loop_raises:
  assumes "main_loop fs book inputs out = Inl e" "book_ok book"
    and "list_all (\<lambda>(today, user_input). valid_date today) inputs"
  shows "e = EOFError \<or>
         (e = unpack_error 1 0 \<and> (\<exists>(today, user_input) \<in> set inputs. str_split user_input = [])) \<or>
         (e = PermissionError \<and> fs FILENAME = Some Denied)"
  using assms
proof (induction inputs arbitrary: book out)
  case Nil
  then show ?case by simp
next
  case (Cons i inputs)
  obtain today user_input where i: "i = (today, user_input)" by (cases i)
  from Cons.prems(3) i have v: "valid_date today"
    and rest: "list_all (\<lambda>(today, user_input). valid_date today) inputs" by simp_all
  from Cons.prems(2) have bv: "birthdays_valid (book_values book)" by (simp add: book_ok_def)
  show ?case
  proof (cases "main_step today fs book user_input")
    case (Inl e')
    with Cons.prems(1) i have "e' = e" by simp
    with main_step_raises [OF Inl v bv] i show ?thesis by auto
  next
    case (Inr res)
    obtain msg book' fs' continue where res: "res = (msg, book', fs', continue)"
      by (cases res)
    from Inr res Cons.prems(1) i have c: "continue"
      and l: "main_loop fs' book' inputs (out @ [msg]) = Inl e"
      by (auto split: if_splits)
    have fs': "fs' = fs"
    proof -
      from Inr res c
      have "main_step today fs book user_input = Inr (msg, book', fs', True)" by simp
      then show ?thesis
        by (auto simp: main_step_def handled_def split: sum.splits if_splits prod.splits)
    qed
    from main_step_book_ok [OF Inr [unfolded res] Cons.prems(2)] have ok: "book_ok book'" .
    from Cons.IH [OF l [unfolded fs'] ok rest] show ?thesis by auto
  qed
qed

section \<open>The line without a command\<close>

text \<open>
  Claim C2 says that no line the user enters makes an exception leave the command loop.
  The lemmas above show it for every line with a word in it (apart from the save at
  \<open>close\<close> and \<open>exit\<close>). A line without a word is the exception: \<open>parse_input\<close> unpacks
  the empty list of words, the \<open>ValueError\<close> of the unpacking is raised in \<open>main\<close>
  outside every handler, and the session ends with it, the book unsaved.
\<close>

theorem main_step_blank_line:
  "main_step today fs book '''' =
     Inl (ValueError ''not enough values to unpack (expected at least 1, got 0)'') \<and>
   main_step today fs book ''   '' =
     Inl (ValueError ''not enough values to unpack (expected at least 1, got 0)'') \<and>
   main no_files [(today, ''add John 1234567890''), (today, ''''), (today, ''exit'')] =
     Inl (ValueError ''not enough values to unpack (expected at least 1, got 0)'')"
proof -
  have e: "unpack_error 1 0 = ValueError ''not enough values to unpack (expected at least 1, got 0)''"
    by code_simp
  have s1: "str_split '''' = []" by (simp add: str_split_def)
  have s2: "str_split ''   '' = []" by code_simp
  have m1: "main_step today fs book '''' = Inl (unpack_error 1 0)" for fs book
    by (simp add: main_step_def parse_input_def s1)
  have m2: "main_step today fs book ''   '' = Inl (unpack_error 1 0)"
    by (simp add: main_step_def parse_input_def s2)
  have l: "load_data FILENAME no_files = Inr []"
    by (simp add: load_data_def open_rb_def no_files_def)
  obtain r where a: "main_step today no_files [] ''add John 1234567890'' = r" by simp
  have a': "\<exists>msg book'. main_step today no_files [] ''add John 1234567890''
      = Inr (msg, book', no_files, True)"
  proof -
    have "parse_input ''add John 1234567890'' = Inr (''add'', [''John'', ''1234567890''])"
      by code_simp
    then have "main_step today no_files [] ''add John 1234567890''
        = handled no_files (add_contact [''John'', ''1234567890''] [])"
      by (simp add: main_step_def)
    moreover from add_contact_returns [of "[''John'', ''1234567890'']" "[]"]
    obtain msg where "fst (add_contact [''John'', ''1234567890''] []) = Inr msg" ..
    ultimately show ?thesis
      by (cases "add_contact [''John'', ''1234567890''] []") (simp add: handled_def)
  qed
  then obtain msg book' where a'': "main_step today no_files [] ''add John 1234567890''
      = Inr (msg, book', no_files, True)" by blast
  have "main no_files [(today, ''add John 1234567890''), (today, ''''), (today, ''exit'')] =
     Inl (unpack_error 1 0)"
    by (simp add: main_def l a'' m1)
  with m1 m2 e show ?thesis by simp
qed

end
